theory Spec2Isabelle
  imports Complex_Main "HOL-Library.Sublist" "HOL-Library.Product_Lexorder" "HOL-Library.AList" "HOL-Library.Multiset"
begin

section \<open>Python values, errors and strings\<close>

text \<open>
  Python floats are modelled as real numbers: no rounding error, no NaN, no overflow to
  infinity.  The one infinite value the code builds on purpose, \<^verbatim>\<open>float("inf")\<close> in the
  sort key of \<^verbatim>\<open>price_points\<close>, is the constructor \<open>PInf\<close> below.  Strings are lists of
  8-bit characters; the case conversions and the digit and whitespace tests are the ASCII ones.
\<close>

datatype error = TypeError | ValueError | KeyError

text \<open>
  A JSON value stored where the code applies \<^verbatim>\<open>float()\<close> to it, abstracted by what
  \<^verbatim>\<open>float()\<close> makes of it: a number (or a string that reads as one), \<^verbatim>\<open>None\<close>
  (\<^verbatim>\<open>TypeError\<close>), or any other value that \<^verbatim>\<open>float()\<close> rejects.
\<close>

datatype pyval = PNum real | PNone | PBad

fun py_float :: "pyval \<Rightarrow> error + real" where
  "py_float (PNum r) = Inr r"
| "py_float PNone = Inl TypeError"
| "py_float PBad = Inl ValueError"

definition is_digit :: "char \<Rightarrow> bool" where
  "is_digit c = (48 \<le> (of_char c :: nat) \<and> (of_char c :: nat) \<le> 57)"

definition is_space :: "char \<Rightarrow> bool" where
  "is_space c = ((of_char c :: nat) \<in> {9, 10, 11, 12, 13, 28, 29, 30, 31, 32})"

definition lower_char :: "char \<Rightarrow> char" where
  "lower_char c = (if 65 \<le> (of_char c :: nat) \<and> (of_char c :: nat) \<le> 90
                   then char_of ((of_char c :: nat) + 32) else c)"

definition upper_char :: "char \<Rightarrow> char" where
  "upper_char c = (if 97 \<le> (of_char c :: nat) \<and> (of_char c :: nat) \<le> 122
                   then char_of ((of_char c :: nat) - 32) else c)"

definition lower :: "string \<Rightarrow> string" where
  "lower s = map lower_char s"

definition upper :: "string \<Rightarrow> string" where
  "upper s = map upper_char s"

text \<open>\<^verbatim>\<open>s.strip()\<close>: leading and trailing whitespace removed.\<close>

definition strip :: "string \<Rightarrow> string" where
  "strip s = rev (dropWhile is_space (rev (dropWhile is_space s)))"

text \<open>\<^verbatim>\<open>sub in s\<close> on strings is \<^const>\<open>sublist\<close>; \<^verbatim>\<open>s.startswith(p)\<close> is \<^const>\<open>prefix\<close>.\<close>

text \<open>\<^verbatim>\<open>d.get(k)\<close> on an association list, \<^verbatim>\<open>None\<close> when the key is missing.\<close>

definition dict_get :: "(string \<times> pyval) list \<Rightarrow> string \<Rightarrow> pyval" where
  "dict_get d k = (case map_of d k of None \<Rightarrow> PNone | Some v \<Rightarrow> v)"

section \<open>Dates\<close>

datatype date = Date (year: nat) (month: nat) (day: nat)

definition date_less :: "date \<Rightarrow> date \<Rightarrow> bool" where
  "date_less a b = (year a < year b \<or> (year a = year b \<and>
      (month a < month b \<or> (month a = month b \<and> day a < day b))))"

definition mmdd :: "date \<Rightarrow> nat" where
  "mmdd d = month d * 100 + day d"

section \<open>Seasonal windows (pricing.py)\<close>

definition EXACT_WINDOWS :: "(string \<times> nat \<times> nat) list" where
  "EXACT_WINDOWS = [(''4/15-6/14'', 415, 614), (''6/15-8/31'', 615, 831), (''9/1-9/30'', 901, 930)]"

definition NAMED_WINDOWS :: "(string \<times> nat \<times> nat) list" where
  "NAMED_WINDOWS = [(''Before Valentine's Day'', 101, 213), (''After Valentine's Day'', 214, 414),
     (''Before Halloween'', 1001, 1031), (''Before Christmas'', 1101, 1224)]"

text \<open>The per-product metadata dict; only the seasonal table matters here.  A missing
  \<^verbatim>\<open>seasonal_price_windows\<close> key and an empty table are both the empty list.\<close>

record product_meta =
  seasonal_price_windows :: "(string \<times> (string \<times> pyval) list) list"

text \<open>One \<^verbatim>\<open>for label, (start, end) in WINDOWS.items()\<close> loop: \<open>Some r\<close> when the loop
  returns (or raises) in its body, \<open>None\<close> when it runs to its end.\<close>

fun scan_windows :: "(string \<times> nat \<times> nat) list \<Rightarrow> (string \<times> (string \<times> pyval) list) list
    \<Rightarrow> string \<Rightarrow> nat \<Rightarrow> (error + real) option" where
  "scan_windows [] sm opt_name md = None"
| "scan_windows ((label, start, end) # ws) sm opt_name md =
     (case map_of sm label of
        Some prices \<Rightarrow>
          if start \<le> md \<and> md \<le> end then Some (py_float (dict_get prices opt_name))
          else scan_windows ws sm opt_name md
      | None \<Rightarrow> scan_windows ws sm opt_name md)"

definition booth_season_for_date :: "product_meta \<Rightarrow> string \<Rightarrow> date \<Rightarrow> error + real option" where
  "booth_season_for_date meta option_name chosen_date =
     (let seasonal_map = seasonal_price_windows meta in
      if seasonal_map = [] then Inr None
      else
        (case scan_windows EXACT_WINDOWS seasonal_map option_name (mmdd chosen_date) of
           Some (Inl e) \<Rightarrow> Inl e
         | Some (Inr p) \<Rightarrow> Inr (Some p)
         | None \<Rightarrow>
            (case scan_windows NAMED_WINDOWS seasonal_map option_name (mmdd chosen_date) of
               Some (Inl e) \<Rightarrow> Inl e
             | Some (Inr p) \<Rightarrow> Inr (Some p)
             | None \<Rightarrow> Inr None)))"

section \<open>Price points (pricing.py)\<close>

text \<open>The \<^verbatim>\<open>price_usd\<close> entry of an option dict: a dict, a number, or anything else
  (missing, \<^verbatim>\<open>None\<close>, a string).  The two other entries only matter as dicts.\<close>

datatype price_field = PriceDict "(string \<times> pyval) list" | PriceScalar real | PriceOther

record price_option =
  name :: "string option"
  price_usd :: price_field
  price_usd_by_plan :: "(string \<times> pyval) list option"
  pricing :: "(string \<times> pyval) list option"

text \<open>The first component of the sort key: a float or \<^verbatim>\<open>float("inf")\<close>.\<close>

datatype xnum = Fin real | PInf

instantiation xnum :: linorder
begin

fun less_eq_xnum :: "xnum \<Rightarrow> xnum \<Rightarrow> bool" where
  "less_eq_xnum (Fin a) (Fin b) = (a \<le> b)"
| "less_eq_xnum (Fin a) PInf = True"
| "less_eq_xnum PInf (Fin b) = False"
| "less_eq_xnum PInf PInf = True"

fun less_xnum :: "xnum \<Rightarrow> xnum \<Rightarrow> bool" where
  "less_xnum (Fin a) (Fin b) = (a < b)"
| "less_xnum (Fin a) PInf = True"
| "less_xnum PInf (Fin b) = False"
| "less_xnum PInf PInf = False"

instance
proof
  fix x y z :: xnum
  show "(x < y) = (x \<le> y \<and> \<not> y \<le> x)" by (cases x; cases y) auto
  show "x \<le> x" by (cases x) auto
  show "x \<le> y \<Longrightarrow> y \<le> z \<Longrightarrow> x \<le> z" by (cases x; cases y; cases z) auto
  show "x \<le> y \<Longrightarrow> y \<le> x \<Longrightarrow> x = y" by (cases x; cases y) auto
  show "x \<le> y \<or> y \<le> x" by (cases x; cases y) auto
qed

end

definition digit_val :: "char \<Rightarrow> nat" where
  "digit_val c = (of_char c :: nat) - 48"

definition digits_val :: "string \<Rightarrow> nat" where
  "digits_val s = foldl (\<lambda>a c. 10 * a + digit_val c) 0 s"

text \<open>\<^verbatim>\<open>float(num)\<close> for a string of digits and dots: it succeeds when there is at least one
  digit and at most one dot.\<close>

definition float_of_num :: "string \<Rightarrow> real option" where
  "float_of_num num =
     (let ip = takeWhile (\<lambda>c. c \<noteq> CHR ''.'') num;
          rest = dropWhile (\<lambda>c. c \<noteq> CHR ''.'') num
      in case rest of
           [] \<Rightarrow> if ip = [] then None else Some (real (digits_val ip))
         | _ # fp \<Rightarrow>
             if CHR ''.'' \<in> set fp \<or> (ip = [] \<and> fp = []) then None
             else Some (real (digits_val ip) + real (digits_val fp) / 10 ^ length fp))"

definition key :: "string \<Rightarrow> real \<Rightarrow> xnum \<times> real" where
  "key lbl price =
     (let num = filter (\<lambda>ch. is_digit ch \<or> ch = CHR ''.'') lbl;
          x = (case float_of_num num of Some v \<Rightarrow> Fin v | None \<Rightarrow> PInf)
      in (x, price))"

text \<open>\<^verbatim>\<open>[(str(k), float(v)) for k, v in d.items()]\<close>: the first value that
  \<^verbatim>\<open>float()\<close> rejects raises.\<close>

fun float_items :: "(string \<times> pyval) list \<Rightarrow> error + (string \<times> real) list" where
  "float_items [] = Inr []"
| "float_items ((k, v) # kvs) =
     (case py_float v of
        Inl e \<Rightarrow> Inl e
      | Inr r \<Rightarrow> (case float_items kvs of Inl e \<Rightarrow> Inl e | Inr rest \<Rightarrow> Inr ((k, r) # rest)))"

definition price_items :: "price_option \<Rightarrow> error + (string \<times> real) list" where
  "price_items opt =
     (case price_usd opt of
        PriceDict d \<Rightarrow> float_items d
      | _ \<Rightarrow>
        (case price_usd_by_plan opt of
           Some d \<Rightarrow> float_items d
         | None \<Rightarrow>
           (case price_usd opt of
              PriceScalar r \<Rightarrow> Inr [(''base'', r)]
            | _ \<Rightarrow>
              (case pricing opt of
                 Some d \<Rightarrow> float_items d
               | None \<Rightarrow> Inr []))))"

definition price_points :: "price_option \<Rightarrow> error + (string \<times> real) list" where
  "price_points opt =
     (case price_items opt of
        Inl e \<Rightarrow> Inl e
      | Inr items \<Rightarrow> Inr (sort_key (\<lambda>t. key (fst t) (snd t)) items))"

section \<open>Line prices (pricing.py)\<close>

text \<open>\<^verbatim>\<open>ProductRecord\<close>: the option dicts and the optional duration map.  The callers
  modelled here always pass a record (never \<^verbatim>\<open>None\<close>) and a string tier label.\<close>

record product =
  price_options :: "price_option list"
  duration_quarter_map :: "(string \<times> pyval) list option"

definition effective_line_price :: "product \<Rightarrow> string \<Rightarrow> real \<Rightarrow> real" where
  "effective_line_price product tier_label base_price =
     (case duration_quarter_map product of
        None \<Rightarrow> base_price
      | Some m \<Rightarrow>
          if m = [] then base_price
          else
            (let lbl = upper tier_label;
                 dur_raw = (case map_of m lbl of None \<Rightarrow> PNum 1 | Some v \<Rightarrow> v);
                 duration = (case py_float dur_raw of Inr d \<Rightarrow> d | Inl e \<Rightarrow> 1)
             in base_price * max duration 1))"

section \<open>Advertiser overrides and discounts (pricing.py)\<close>

definition en_dash :: string where
  "en_dash = [CHR 0xE2, CHR 0x80, CHR 0x93]"

definition advertiser_overrides ::
    "string \<Rightarrow> string \<Rightarrow> real \<Rightarrow> string \<Rightarrow> bool \<Rightarrow> real option \<times> string option" where
  "advertiser_overrides product_name option_name base_price tier is_advertiser =
     (if \<not> is_advertiser then (None, None)
      else
        (let nm = strip product_name; opt = strip option_name in
         if nm = ''Email Blast'' \<and> sublist ''Blast Email - concierge'' opt then
           (if is_advertiser then (Some 450, Some ''Existing advertiser contract rate'')
            else (None, None))
         else if nm = ''Ambassador Program'' then
           (if \<not> is_advertiser then (None, None)
            else if prefix ''Standard Ambassador Program'' opt then
              (Some 2950, Some (''Existing advertiser '' @ en_dash @ '' with any campaign rate''))
            else if prefix ''Ambassador - Concierge Intro'' opt then
              (Some 2750, Some (''Existing advertiser '' @ en_dash @ '' with any campaign rate''))
            else (None, None))
         else (None, None)))"

definition get_effective_unit_price ::
    "string \<Rightarrow> string \<Rightarrow> real \<Rightarrow> product_meta \<Rightarrow> date option \<Rightarrow> bool \<Rightarrow> error + real" where
  "get_effective_unit_price product_name option_name base_price meta chosen_date is_advertiser =
     (case (case chosen_date of
              None \<Rightarrow> Inr base_price
            | Some d \<Rightarrow>
                (case booth_season_for_date meta option_name d of
                   Inl e \<Rightarrow> Inl e
                 | Inr None \<Rightarrow> Inr base_price
                 | Inr (Some seasonal) \<Rightarrow> Inr seasonal)) of
        Inl e \<Rightarrow> Inl e
      | Inr eff \<Rightarrow>
          (case fst (advertiser_overrides product_name option_name eff [] is_advertiser) of
             Some adv_price \<Rightarrow> Inr adv_price
           | None \<Rightarrow> Inr eff))"

text \<open>\<^verbatim>\<open>round(x, 2)\<close> on a real: to the nearest hundredth, a tie to the even one.\<close>

definition round2 :: "real \<Rightarrow> real" where
  "round2 x =
     (let y = x * 100; f = \<lfloor>y\<rfloor>; r = y - of_int f
      in (if r < 1 / 2 then of_int f
          else if 1 / 2 < r then of_int (f + 1)
          else if even f then of_int f else of_int (f + 1)) / 100)"

definition EARLY_BIRD_TEXT :: string where
  "EARLY_BIRD_TEXT = ''Early Bird Rate - Ends August 1''"

text \<open>Lines 276 to 303 of \<^verbatim>\<open>apply_discounts\<close>: the rules tied to one product each, reached
  when neither the dated rule nor an advertiser override returned.\<close>

definition product_rules ::
    "string \<Rightarrow> string \<Rightarrow> real \<Rightarrow> bool \<Rightarrow> bool \<Rightarrow> real \<times> string option" where
  "product_rules nm opt base_price has_other_products prepay_full_year =
     (if nm = ''Email Blast'' \<and> sublist ''Blast Email - concierge'' opt then
        (if has_other_products then (450, Some ''Contract bundle price (with other products)'')
         else (750, None))
      else if nm = ''Email Blast'' \<and> sublist ''Planner Eblast'' opt then (base_price, None)
      else if nm = ''Chicago Does Reels'' then
        (if has_other_products then (895, Some ''With other purchase discount'') else (995, None))
      else if nm = ''Ambassador Program'' then
        (if prefix ''Standard Ambassador Program'' opt then
           (if has_other_products then (2950, Some ''With Any Campaign rate'') else (3200, None))
         else if prefix ''Ambassador - Concierge Intro'' opt then
           (if has_other_products then (2750, Some ''With Any Campaign rate'') else (3000, None))
         else (base_price, None))
      else if nm = ''Chicago Does Interactive Map'' then
        (if prepay_full_year then
           (round2 (base_price * (9 / 10)), Some (''Prepay entire year '' @ en_dash @ '' 10% off''))
         else (base_price, None))
      else (base_price, None))"

definition apply_discounts ::
    "string \<Rightarrow> string \<Rightarrow> real \<Rightarrow> string \<Rightarrow> bool \<Rightarrow> bool \<Rightarrow> bool \<Rightarrow> date option
     \<Rightarrow> real \<times> string option" where
  "apply_discounts product_name option_name base_price tier has_other_products prepay_full_year
       is_advertiser billing_date =
     (let nm = strip product_name; opt = strip option_name in
      if billing_date \<noteq> None \<and> nm = ''Hotel Meetup'' \<and> sublist ''Hotel Meetup 2026'' opt then
        (if sublist EARLY_BIRD_TEXT tier then
           (if date_less (the billing_date) (Date (year (the billing_date)) 8 1)
            then (2395, Some EARLY_BIRD_TEXT)
            else (2595, None))
         else (base_price, None))
      else
        (case advertiser_overrides nm opt base_price tier is_advertiser of
           (Some adv_price, adv_label) \<Rightarrow> (adv_price, adv_label)
         | (None, adv_label) \<Rightarrow>
             product_rules nm opt base_price has_other_products prepay_full_year))"

section \<open>The greedy allocator (upgrader.py)\<close>

text \<open>A dict is an association list in insertion order, its keys distinct.  Assigning
  \<^verbatim>\<open>d[k] = v\<close> is \<^const>\<open>AList.update\<close>: an existing key keeps its place, a new key goes to
  the end.\<close>

type_synonym pick = "string \<times> string \<times> real"

type_synonym cand = "string \<times> string \<times> real \<times> real"

record selection =
  picks :: "(string \<times> pick) list"
  subtotal :: real

text \<open>The Summit Booth rule at the head of both option loops: whether the option is
  skipped (\<^verbatim>\<open>continue\<close>).\<close>

definition option_skipped :: "string \<Rightarrow> string \<Rightarrow> bool \<Rightarrow> bool" where
  "option_skipped pname opt_name is_advertiser =
     (if sublist ''summit'' (lower pname) \<and> sublist ''booth'' (lower pname) then
        (let low = lower opt_name;
             has_non = (sublist ''non-advertiser'' low \<or> sublist ''non advertiser'' low);
             has_adv = (sublist ''advertiser'' low \<and> \<not> has_non)
         in if is_advertiser then has_non else has_adv)
      else False)"

text \<open>The inner loop \<^verbatim>\<open>for lbl, base_price in price_points(opt)\<close>, which Phase A and Phase B
  both run with the same two first statements: the tuples
  \<^verbatim>\<open>(opt_name, lbl, eff_base, line)\<close> in the order of the loop.\<close>

fun point_cands :: "string \<Rightarrow> product \<Rightarrow> product_meta \<Rightarrow> date option \<Rightarrow> bool \<Rightarrow> string
    \<Rightarrow> (string \<times> real) list \<Rightarrow> error + cand list" where
  "point_cands pname product meta chosen_date is_advertiser opt_name [] = Inr []"
| "point_cands pname product meta chosen_date is_advertiser opt_name ((lbl, base_price) # pts) =
     (case get_effective_unit_price pname opt_name base_price meta chosen_date is_advertiser of
        Inl e \<Rightarrow> Inl e
      | Inr eff_base \<Rightarrow>
          (case point_cands pname product meta chosen_date is_advertiser opt_name pts of
             Inl e \<Rightarrow> Inl e
           | Inr cs \<Rightarrow>
               Inr ((opt_name, lbl, eff_base, effective_line_price product lbl eff_base) # cs)))"

text \<open>The outer loop \<^verbatim>\<open>for opt in product.price_options\<close> of both phases.\<close>

fun option_cands :: "string \<Rightarrow> product \<Rightarrow> product_meta \<Rightarrow> date option \<Rightarrow> bool
    \<Rightarrow> price_option list \<Rightarrow> error + cand list" where
  "option_cands pname product meta chosen_date is_advertiser [] = Inr []"
| "option_cands pname product meta chosen_date is_advertiser (opt # opts) =
     (let opt_name = (case name opt of None \<Rightarrow> pname | Some n \<Rightarrow> n) in
      if option_skipped pname opt_name is_advertiser
      then option_cands pname product meta chosen_date is_advertiser opts
      else
        (case price_points opt of
           Inl e \<Rightarrow> Inl e
         | Inr pts \<Rightarrow>
            (case point_cands pname product meta chosen_date is_advertiser opt_name pts of
               Inl e \<Rightarrow> Inl e
             | Inr cs \<Rightarrow>
                (case option_cands pname product meta chosen_date is_advertiser opts of
                   Inl e \<Rightarrow> Inl e
                 | Inr rest \<Rightarrow> Inr (cs @ rest)))))"

definition meta_get :: "(string \<times> product_meta) list \<Rightarrow> string \<Rightarrow> product_meta" where
  "meta_get meta pname =
     (case map_of meta pname of None \<Rightarrow> \<lparr>seasonal_price_windows = []\<rparr> | Some m \<Rightarrow> m)"

definition candidates :: "(string \<times> product_meta) list \<Rightarrow> date option \<Rightarrow> bool \<Rightarrow> string
    \<Rightarrow> product \<Rightarrow> error + cand list" where
  "candidates meta chosen_date is_advertiser pname product =
     option_cands pname product (meta_get meta pname) chosen_date is_advertiser
       (price_options product)"

text \<open>Phase A for one product: \<^verbatim>\<open>best\<close> and \<^verbatim>\<open>best_line\<close> over the candidates.\<close>

fun pick_best :: "cand list \<Rightarrow> (pick \<times> real) option \<Rightarrow> (pick \<times> real) option" where
  "pick_best [] best = best"
| "pick_best ((opt_name, lbl, eff_base, line) # cs) best =
     pick_best cs
       (case best of
          None \<Rightarrow> Some ((opt_name, lbl, eff_base), line)
        | Some (b, best_line) \<Rightarrow>
            if line < best_line then Some ((opt_name, lbl, eff_base), line) else best)"

text \<open>Phase A: the loop over \<^verbatim>\<open>products.items()\<close>.\<close>

fun baseline :: "(string \<times> product_meta) list \<Rightarrow> date option \<Rightarrow> bool
    \<Rightarrow> (string \<times> product) list \<Rightarrow> (string \<times> pick) list \<Rightarrow> real
    \<Rightarrow> error + (string \<times> pick) list \<times> real" where
  "baseline meta chosen_date is_advertiser [] pks sub = Inr (pks, sub)"
| "baseline meta chosen_date is_advertiser ((pname, product) # ps) pks sub =
     (case candidates meta chosen_date is_advertiser pname product of
        Inl e \<Rightarrow> Inl e
      | Inr cs \<Rightarrow>
          (case pick_best cs None of
             None \<Rightarrow> baseline meta chosen_date is_advertiser ps pks sub
           | Some ((opt_name, lbl, eff_base), best_line) \<Rightarrow>
               baseline meta chosen_date is_advertiser ps
                 (AList.update pname (opt_name, lbl, eff_base) pks)
                 (sub + effective_line_price product lbl eff_base)))"

text \<open>Phase B, one pass: the loop over the snapshot \<^verbatim>\<open>list(picks.items())\<close>, with the
  live \<^verbatim>\<open>picks\<close>, \<^verbatim>\<open>subtotal\<close> and \<^verbatim>\<open>improved\<close> as state.\<close>

fun upgrade_pass :: "real \<Rightarrow> (string \<times> product) list \<Rightarrow> (string \<times> product_meta) list
    \<Rightarrow> date option \<Rightarrow> bool \<Rightarrow> (string \<times> pick) list \<Rightarrow> (string \<times> pick) list \<Rightarrow> real \<Rightarrow> bool
    \<Rightarrow> error + (string \<times> pick) list \<times> real \<times> bool" where
  "upgrade_pass budget products meta chosen_date is_advertiser [] pks sub improved =
     Inr (pks, sub, improved)"
| "upgrade_pass budget products meta chosen_date is_advertiser
       ((pname, (cur_opt, cur_lbl, cur_base)) # items) pks sub improved =
     (case map_of products pname of
        None \<Rightarrow> Inl KeyError
      | Some product \<Rightarrow>
          (let cur_line = effective_line_price product cur_lbl cur_base in
           case candidates meta chosen_date is_advertiser pname product of
             Inl e \<Rightarrow> Inl e
           | Inr cs \<Rightarrow>
               (let upgrades = sort_key (\<lambda>c. snd (snd (snd c)))
                                 (filter (\<lambda>c. cur_line < snd (snd (snd c))) cs) in
                case find (\<lambda>c. sub - cur_line + snd (snd (snd c)) \<le> budget) upgrades of
                  None \<Rightarrow>
                    upgrade_pass budget products meta chosen_date is_advertiser
                      items pks sub improved
                | Some (opt_name, lbl, eff_base, new_line) \<Rightarrow>
                    upgrade_pass budget products meta chosen_date is_advertiser items
                      (AList.update pname (opt_name, lbl, eff_base) pks)
                      (sub - cur_line + new_line) True)))"

text \<open>Phase B: \<^verbatim>\<open>while improved\<close>.  \<open>None\<close> is a loop that never ends.\<close>

partial_function (option) upgrade_loop :: "real \<Rightarrow> (string \<times> product) list
    \<Rightarrow> (string \<times> product_meta) list \<Rightarrow> date option \<Rightarrow> bool \<Rightarrow> (string \<times> pick) list \<Rightarrow> real
    \<Rightarrow> (error + (string \<times> pick) list \<times> real) option" where
  "upgrade_loop budget products meta chosen_date is_advertiser pks sub =
     (case upgrade_pass budget products meta chosen_date is_advertiser pks pks sub False of
        Inl e \<Rightarrow> Some (Inl e)
      | Inr (pks', sub', improved) \<Rightarrow>
          if improved
          then upgrade_loop budget products meta chosen_date is_advertiser pks' sub'
          else Some (Inr (pks', sub')))"

declare upgrade_loop.simps [code]

definition greedy_fill_to_cap :: "real \<Rightarrow> (string \<times> product) list
    \<Rightarrow> (string \<times> product_meta) list \<Rightarrow> date option \<Rightarrow> bool \<Rightarrow> (error + selection) option" where
  "greedy_fill_to_cap budget products meta chosen_date is_advertiser =
     (case baseline meta chosen_date is_advertiser products [] 0 of
        Inl e \<Rightarrow> Some (Inl e)
      | Inr (pks, sub) \<Rightarrow>
          (case upgrade_loop budget products meta chosen_date is_advertiser pks sub of
             None \<Rightarrow> None
           | Some (Inl e) \<Rightarrow> Some (Inl e)
           | Some (Inr (pks', sub')) \<Rightarrow> Some (Inr \<lparr>picks = pks', subtotal = round2 sub'\<rparr>)))"

definition run_fill_to_cap :: "real \<Rightarrow> real \<Rightarrow> real \<Rightarrow> (string \<times> product) list
    \<Rightarrow> (string \<times> product) list \<Rightarrow> (string \<times> product_meta) list \<Rightarrow> date option \<Rightarrow> bool
    \<Rightarrow> (error + selection \<times> selection \<times> real) option" where
  "run_fill_to_cap total_budget tourist_pct industry_pct t_set i_set meta chosen_date is_advertiser =
     (let t_budget = total_budget * (tourist_pct / 100);
          i_budget = total_budget * (industry_pct / 100) in
      case greedy_fill_to_cap t_budget t_set meta chosen_date is_advertiser of
        None \<Rightarrow> None
      | Some (Inl e) \<Rightarrow> Some (Inl e)
      | Some (Inr t_sel) \<Rightarrow>
          (case greedy_fill_to_cap i_budget i_set meta chosen_date is_advertiser of
             None \<Rightarrow> None
           | Some (Inl e) \<Rightarrow> Some (Inl e)
           | Some (Inr i_sel) \<Rightarrow>
               Some (Inr (t_sel, i_sel, round2 (subtotal t_sel + subtotal i_sel)))))"

text \<open>\<^verbatim>\<open>compute_pools\<close> of budget.py: the two pool budgets, each rounded to cents.\<close>

definition compute_pools :: "real \<Rightarrow> real \<Rightarrow> real \<Rightarrow> (string \<times> real) \<times> (string \<times> real)" where
  "compute_pools total_budget tourist_pct industry_pct =
     (let t_budget = round2 (total_budget * (tourist_pct / 100));
          i_budget = round2 (total_budget * (industry_pct / 100))
      in ((''tourist'', t_budget), (''industry'', i_budget)))"

section \<open>The eligibility filter (summit_rules.py)\<close>

text \<open>The filter runs on the catalogue before the allocator.  A \<^verbatim>\<open>ProductRecord\<close> is its
  \<^verbatim>\<open>name\<close> beside the record of the fields the allocator reads: the loader stores each
  record under its name.  The profile text is \<open>None\<close> or a string; the advertiser flag is
  \<open>Some True\<close>, \<open>Some False\<close>, or \<open>None\<close> for a value that is neither.\<close>

definition em_dash :: string where
  "em_dash = [CHR 0xE2, CHR 0x80, CHR 0x94]"

definition contains_all :: "string \<Rightarrow> string list \<Rightarrow> bool" where
  "contains_all text keywords =
     (let t = lower text
      in list_all (\<lambda>k. sublist (lower k) t) (filter (\<lambda>k. k \<noteq> []) keywords))"

definition contains_any :: "string \<Rightarrow> string list \<Rightarrow> bool" where
  "contains_any text keywords =
     (let t = lower text
      in list_ex (\<lambda>k. sublist (lower k) t) (filter (\<lambda>k. k \<noteq> []) keywords))"

definition is_label :: "string \<Rightarrow> string \<Rightarrow> bool" where
  "is_label label k = sublist (lower k) (lower label)"

definition get_name :: "price_option \<Rightarrow> string" where
  "get_name opt = (case name opt of None \<Rightarrow> [] | Some n \<Rightarrow> n)"

definition filter_summit_booth :: "string \<Rightarrow> product \<Rightarrow> string option \<Rightarrow> bool option \<Rightarrow> product" where
  "filter_summit_booth rec_name rec profile_text is_advertiser =
     (let name_l = lower rec_name in
      if \<not> sublist ''summit'' name_l \<or> \<not> sublist ''booth'' name_l then rec
      else
        (let txt = (case profile_text of None \<Rightarrow> [] | Some t \<Rightarrow> t);
             opts = price_options rec
         in if contains_all txt [''cvb'', ''illinois'']
            then rec\<lparr>price_options := filter (\<lambda>opt. is_label (get_name opt) ''Illinois CVB'') opts\<rparr>
            else if contains_any txt [''dmo'', ''out-of-state'', ''out of state'', ''outside illinois'']
            then rec\<lparr>price_options :=
                       filter (\<lambda>opt. is_label (get_name opt) ''DMO (out of Illinois)'') opts\<rparr>
            else
              (let k = (case is_advertiser of
                          Some True \<Rightarrow> ''Basic Booth '' @ em_dash @ '' advertiser rate''
                        | Some False \<Rightarrow> ''Basic Booth '' @ em_dash @ '' non-advertiser rate''
                        | None \<Rightarrow> ''Basic Booth '' @ em_dash @ '' advertiser rate'');
                   exact = filter (\<lambda>opt. name opt = Some k) opts
               in if exact \<noteq> [] then rec\<lparr>price_options := exact\<rparr>
                  else rec\<lparr>price_options :=
                             filter (\<lambda>opt. sublist ''basic booth'' (lower (get_name opt))) opts\<rparr>)))"

definition apply_summit_rules :: "(string \<times> product) list \<Rightarrow> string option \<Rightarrow> bool option
    \<Rightarrow> (string \<times> product) list" where
  "apply_summit_rules products profile_text is_advertiser =
     map (\<lambda>(pname, rec).
            if sublist ''summit'' (lower pname) \<and> sublist ''booth'' (lower pname)
            then (pname, filter_summit_booth pname rec profile_text is_advertiser)
            else (pname, rec))
         products"

section \<open>Example inputs\<close>

text \<open>A seasonal table with one exact window that lists a price for one option only.\<close>

definition booth_meta :: product_meta where
  "booth_meta = \<lparr>seasonal_price_windows = [(''4/15-6/14'', [(''Basic Booth'', PNum 500)])]\<rparr>"

section \<open>The claims' own words\<close>

text \<open>The duration multiplier of a tier as the specification describes it: the number the
  duration map lists for the tier (the map is keyed by upper-cased labels), and 1 when the
  map or the entry is missing or is not a number.\<close>

definition spec_duration_multiplier :: "product \<Rightarrow> string \<Rightarrow> real" where
  "spec_duration_multiplier product tier =
     (case duration_quarter_map product of
        None \<Rightarrow> 1
      | Some m \<Rightarrow> (case map_of m (upper tier) of Some (PNum d) \<Rightarrow> d | _ \<Rightarrow> 1))"

text \<open>The leading numeric token of a label, and the sort key the specification describes:
  the first run of digits and dots.\<close>

definition leading_token :: "string \<Rightarrow> string" where
  "leading_token lbl =
     takeWhile (\<lambda>ch. is_digit ch \<or> ch = CHR ''.'')
       (dropWhile (\<lambda>ch. \<not> (is_digit ch \<or> ch = CHR ''.'')) lbl)"

definition leading_key :: "string \<Rightarrow> real \<Rightarrow> xnum \<times> real" where
  "leading_key lbl price =
     ((case float_of_num (leading_token lbl) of Some v \<Rightarrow> Fin v | None \<Rightarrow> PInf), price)"

text \<open>More example inputs.\<close>

definition tier_option :: price_option where
  "tier_option = \<lparr>name = None,
      price_usd = PriceDict [(''2X 12mo'', PNum 100), (''3X'', PNum 50), (''Retail'', PNum 10)],
      price_usd_by_plan = Some [(''1X'', PNum 1)], pricing = None\<rparr>"

definition magazine :: product where
  "magazine = \<lparr>price_options =
       [\<lparr>name = Some ''Full Page'',
         price_usd = PriceDict [(''4X'', PNum 800), (''1X'', PNum 1000)],
         price_usd_by_plan = None, pricing = None\<rparr>],
     duration_quarter_map = Some [(''4X'', PNum 4), (''2X'', PBad)]\<rparr>"

definition email_blast :: product where
  "email_blast = \<lparr>price_options =
       [\<lparr>name = Some ''Blast Email - concierge'', price_usd = PriceScalar 750,
         price_usd_by_plan = None, pricing = None\<rparr>],
     duration_quarter_map = None\<rparr>"

definition newsletter :: product where
  "newsletter = \<lparr>price_options =
       [\<lparr>name = Some ''Sponsored'', price_usd = PriceOther,
         price_usd_by_plan = None, pricing = None\<rparr>],
     duration_quarter_map = None\<rparr>"

definition catalog :: "(string \<times> product) list" where
  "catalog = [(''Email Blast'', email_blast), (''Magazine Ad'', magazine),
              (''Newsletter'', newsletter)]"

section \<open>The room left for upgrades\<close>

text \<open>For one pick, the number of candidates of its product that are strictly more expensive
  than the pick; for a picks dict, the sum over its entries.  Every adopted upgrade lowers
  it.\<close>

definition room :: "(string \<times> product) list \<Rightarrow> (string \<times> product_meta) list \<Rightarrow> date option \<Rightarrow> bool
    \<Rightarrow> string \<times> pick \<Rightarrow> nat" where
  "room products meta d adv e =
     (case e of (pname, (opt_name, lbl, eff_base)) \<Rightarrow>
        (case map_of products pname of
           None \<Rightarrow> 0
         | Some product \<Rightarrow>
             (case candidates meta d adv pname product of
                Inl x \<Rightarrow> 0
              | Inr cs \<Rightarrow>
                  length (filter (\<lambda>c. effective_line_price product lbl eff_base < snd (snd (snd c)))
                            cs))))"

definition total_room :: "(string \<times> product) list \<Rightarrow> (string \<times> product_meta) list \<Rightarrow> date option
    \<Rightarrow> bool \<Rightarrow> (string \<times> pick) list \<Rightarrow> nat" where
  "total_room products meta d adv pks = sum_list (map (room products meta d adv) pks)"

text \<open>The price points of a product as it is given to the allocator, that is, after the
  eligibility filter: those of all its options, with the option's name.\<close>

fun surviving_points :: "string \<Rightarrow> price_option list \<Rightarrow> (string \<times> string \<times> real) list" where
  "surviving_points pname [] = []"
| "surviving_points pname (opt # opts) =
     (let opt_name = (case name opt of None \<Rightarrow> pname | Some n \<Rightarrow> n) in
      (case price_points opt of
         Inl e \<Rightarrow> []
       | Inr pts \<Rightarrow> map (\<lambda>(lbl, base_price). (opt_name, lbl, base_price)) pts)
      @ surviving_points pname opts)"

text \<open>The price points that the allocator itself enumerates: those of the options that its
  own Summit Booth rule \<^const>\<open>option_skipped\<close> does not skip.\<close>

fun unskipped_points :: "string \<Rightarrow> bool \<Rightarrow> price_option list \<Rightarrow> (string \<times> string \<times> real) list" where
  "unskipped_points pname is_advertiser [] = []"
| "unskipped_points pname is_advertiser (opt # opts) =
     (let opt_name = (case name opt of None \<Rightarrow> pname | Some n \<Rightarrow> n) in
      if option_skipped pname opt_name is_advertiser
      then unskipped_points pname is_advertiser opts
      else (case price_points opt of
              Inl e \<Rightarrow> []
            | Inr pts \<Rightarrow> map (\<lambda>(lbl, base_price). (opt_name, lbl, base_price)) pts)
           @ unskipped_points pname is_advertiser opts)"

text \<open>A Summit Booth record with an advertiser rate and a regional rate, but no
  non-advertiser rate, and what the eligibility filter leaves of it for a client who is not
  an advertiser and whose profile names no region: the fall-back to any "basic booth"
  option.\<close>

definition advertiser_rate :: price_option where
  "advertiser_rate = \<lparr>name = Some (''Basic Booth '' @ em_dash @ '' advertiser rate''),
      price_usd = PriceScalar 400, price_usd_by_plan = None, pricing = None\<rparr>"

definition cvb_rate :: price_option where
  "cvb_rate = \<lparr>name = Some ''Illinois CVB rate'',
      price_usd = PriceScalar 300, price_usd_by_plan = None, pricing = None\<rparr>"

definition summit_booth :: product where
  "summit_booth = \<lparr>price_options = [advertiser_rate, cvb_rate], duration_quarter_map = None\<rparr>"

definition summit_booth_filtered :: product where
  "summit_booth_filtered = \<lparr>price_options = [advertiser_rate], duration_quarter_map = None\<rparr>"

text \<open>The picks of the example catalogue after Phase A and after Phase B, for a budget
  of 5000.\<close>

definition catalog_baseline :: "(string \<times> pick) list" where
  "catalog_baseline = [(''Email Blast'', ''Blast Email - concierge'', ''base'', 750),
                       (''Magazine Ad'', ''Full Page'', ''1X'', 1000)]"

definition catalog_upgraded :: "(string \<times> pick) list" where
  "catalog_upgraded = [(''Email Blast'', ''Blast Email - concierge'', ''base'', 750),
                       (''Magazine Ad'', ''Full Page'', ''4X'', 800)]"

section \<open>Strings: stripping keeps an inner phrase\<close>

lemma sublist_dropWhile:
  "sublist sub s \<Longrightarrow> sub \<noteq> [] \<Longrightarrow> \<not> P (hd sub) \<Longrightarrow> sublist sub (dropWhile P s)"
proof (induction s)
  case Nil
  then show ?case by simp
next
  case (Cons x xs)
  show ?case
  proof (cases "P x")
    case True
    have "\<not> prefix sub (x # xs)"
    proof
      assume "prefix sub (x # xs)"
      with Cons.prems(2) have "hd sub = x" by (cases sub) auto
      with True Cons.prems(3) show False by simp
    qed
    with Cons.prems(1) have "sublist sub xs" by (simp add: sublist_Cons_right)
    with Cons True show ?thesis by simp
  next
    case False
    with Cons.prems(1) show ?thesis by simp
  qed
qed

lemma sublist_strip:
  assumes "sublist sub s" "sub \<noteq> []" "\<not> is_space (hd sub)" "\<not> is_space (last sub)"
  shows "sublist sub (strip s)"
proof -
  have a: "sublist sub (dropWhile is_space s)"
    using assms by (intro sublist_dropWhile)
  have "sublist (rev sub) (rev (dropWhile is_space s))"
    using a by simp
  moreover have "rev sub \<noteq> []" using assms(2) by simp
  moreover have "\<not> is_space (hd (rev sub))" using assms(2,4) by (simp add: hd_rev)
  ultimately have "sublist (rev sub) (dropWhile is_space (rev (dropWhile is_space s)))"
    by (intro sublist_dropWhile)
  then have "sublist (rev (rev sub)) (rev (dropWhile is_space (rev (dropWhile is_space s))))"
    by (simp only: sublist_rev)
  then show ?thesis by (simp add: strip_def)
qed

lemma dropWhile_id: "xs = [] \<or> \<not> P (hd xs) \<Longrightarrow> dropWhile P xs = xs"
  by (cases xs) auto

lemma dropWhile_head: "dropWhile P xs = [] \<or> \<not> P (hd (dropWhile P xs))"
  by (metis hd_dropWhile)

lemma strip_strip: "strip (strip s) = strip s"
proof -
  define u where "u = dropWhile is_space s"
  define v where "v = dropWhile is_space (rev u)"
  have u: "u = [] \<or> \<not> is_space (hd u)" unfolding u_def by (rule dropWhile_head)
  have v: "v = [] \<or> \<not> is_space (hd v)" unfolding v_def by (rule dropWhile_head)
  have "suffix v (rev u)" unfolding v_def by (rule suffix_dropWhile)
  then have p: "prefix (rev v) u" by (metis rev_rev_ident suffix_to_prefix)
  have "rev v = [] \<or> \<not> is_space (hd (rev v))"
  proof (cases "rev v = []")
    case True then show ?thesis by simp
  next
    case False
    with p have "hd (rev v) = hd u" by (metis hd_append2 prefix_def)
    moreover from False p have "u \<noteq> []" by auto
    ultimately show ?thesis using u by simp
  qed
  then have "dropWhile is_space (rev v) = rev v" by (rule dropWhile_id)
  moreover have "dropWhile is_space v = v" using v by (rule dropWhile_id)
  ultimately have "strip (rev v) = rev v" by (simp add: strip_def)
  moreover have "strip s = rev v" by (simp add: strip_def u_def v_def)
  ultimately show ?thesis by simp
qed

lemma strip_hotel: "strip ''Hotel Meetup'' = ''Hotel Meetup''"
  by (simp add: strip_def is_space_def)

lemma strip_email: "strip ''Email Blast'' = ''Email Blast''"
  by (simp add: strip_def is_space_def)

lemma hotel2026_strip:
  "sublist ''Hotel Meetup 2026'' s \<Longrightarrow> sublist ''Hotel Meetup 2026'' (strip s)"
  by (rule sublist_strip) (simp_all add: is_space_def)

lemma concierge_strip:
  "sublist ''Blast Email - concierge'' s \<Longrightarrow> sublist ''Blast Email - concierge'' (strip s)"
  by (rule sublist_strip) (simp_all add: is_space_def)

section \<open>The dated early-bird rule\<close>

text \<open>
  Claim C5.  For the product "Hotel Meetup", an option name that contains
  "Hotel Meetup 2026" and the tier "Early Bird Rate - Ends August 1": a billing date before
  August 1 of its own year gives the price 2395 with the early-bird label, and a billing
  date on or after August 1 gives the retail price 2595 with no label, whatever the base
  price and the three flags are.
\<close>

theorem apply_discounts_early_bird:
  assumes "sublist ''Hotel Meetup 2026'' option_name"
  shows "(date_less bd (Date (year bd) 8 1) \<longrightarrow>
           apply_discounts ''Hotel Meetup'' option_name base_price EARLY_BIRD_TEXT
               has_other prepay adv (Some bd)
             = (2395, Some EARLY_BIRD_TEXT))
       \<and> (\<not> date_less bd (Date (year bd) 8 1) \<longrightarrow>
           apply_discounts ''Hotel Meetup'' option_name base_price EARLY_BIRD_TEXT
               has_other prepay adv (Some bd)
             = (2595, None))"
  using hotel2026_strip[OF assms] by (simp add: apply_discounts_def strip_hotel)

theorem apply_discounts_early_bird_witness:
  "sublist ''Hotel Meetup 2026'' ''Hotel Meetup 2026''
   \<and> date_less (Date 2026 7 1) (Date 2026 8 1)
   \<and> \<not> date_less (Date 2026 9 1) (Date 2026 8 1)
   \<and> apply_discounts ''Hotel Meetup'' ''Hotel Meetup 2026'' 2595 EARLY_BIRD_TEXT
        False False False (Some (Date 2026 7 1))
      = (2395, Some ''Early Bird Rate - Ends August 1'')
   \<and> apply_discounts ''Hotel Meetup'' ''Hotel Meetup 2026'' 2395 EARLY_BIRD_TEXT
        False False False (Some (Date 2026 9 1))
      = (2595, None)"
  using apply_discounts_early_bird[of "''Hotel Meetup 2026''" "Date 2026 7 1" 2595 False False False]
        apply_discounts_early_bird[of "''Hotel Meetup 2026''" "Date 2026 9 1" 2395 False False False]
  by (simp add: date_less_def EARLY_BIRD_TEXT_def)

section \<open>The advertiser override\<close>

lemma advertiser_overrides_fires:
  assumes "fst (advertiser_overrides pn opn bp t adv) = Some ap"
  shows "strip pn = ''Email Blast'' \<or> strip pn = ''Ambassador Program''"
  using assms by (auto simp: advertiser_overrides_def Let_def split: if_splits)

text \<open>
  Claim C6.  Without the advertiser flag \<^const>\<open>advertiser_overrides\<close> returns no override
  for every input.  With the flag, the product "Email Blast" and an option name that contains
  "Blast Email - concierge" get the price 450 with the label "Existing advertiser contract
  rate", from \<^const>\<open>advertiser_overrides\<close> and from \<^const>\<open>apply_discounts\<close> alike, whatever
  the bundle and prepay flags and the billing date are.  Whenever the override gives a price
  (on the stripped names, as \<^const>\<open>apply_discounts\<close> calls it), \<^const>\<open>apply_discounts\<close>
  returns that price and label, so the per-product rules are not consulted.
\<close>

theorem advertiser_override_short_circuits:
  "advertiser_overrides product_name option_name base_price tier False = (None, None)
   \<and> (sublist ''Blast Email - concierge'' option_name \<longrightarrow>
        advertiser_overrides ''Email Blast'' option_name base_price tier True
          = (Some 450, Some ''Existing advertiser contract rate'')
        \<and> apply_discounts ''Email Blast'' option_name base_price tier has_other prepay True bd
          = (450, Some ''Existing advertiser contract rate''))
   \<and> (fst (advertiser_overrides (strip product_name) (strip option_name) base_price tier adv)
          = Some adv_price \<longrightarrow>
        apply_discounts product_name option_name base_price tier has_other prepay adv bd
          = (adv_price,
             snd (advertiser_overrides (strip product_name) (strip option_name) base_price tier adv)))"
proof (intro conjI impI)
  show "advertiser_overrides product_name option_name base_price tier False = (None, None)"
    by (simp add: advertiser_overrides_def)
next
  assume a: "sublist ''Blast Email - concierge'' option_name"
  from concierge_strip[OF a]
  show "advertiser_overrides ''Email Blast'' option_name base_price tier True
          = (Some 450, Some ''Existing advertiser contract rate'')"
    by (simp add: advertiser_overrides_def strip_email)
next
  assume a: "sublist ''Blast Email - concierge'' option_name"
  from concierge_strip[OF concierge_strip[OF a]]
  show "apply_discounts ''Email Blast'' option_name base_price tier has_other prepay True bd
          = (450, Some ''Existing advertiser contract rate'')"
    by (simp add: apply_discounts_def advertiser_overrides_def strip_email strip_strip)
next
  assume a: "fst (advertiser_overrides (strip product_name) (strip option_name) base_price tier adv)
          = Some adv_price"
  from advertiser_overrides_fires[OF a]
  have "strip product_name \<noteq> ''Hotel Meetup''" by (auto simp: strip_strip)
  with a show "apply_discounts product_name option_name base_price tier has_other prepay adv bd
          = (adv_price,
             snd (advertiser_overrides (strip product_name) (strip option_name) base_price tier adv))"
    by (cases "advertiser_overrides (strip product_name) (strip option_name) base_price tier adv")
       (simp add: apply_discounts_def)
qed

theorem advertiser_override_short_circuits_witness:
  "sublist ''Blast Email - concierge'' ''Blast Email - concierge''
   \<and> advertiser_overrides ''Email Blast'' ''Blast Email - concierge'' 750 [] True
        = (Some 450, Some ''Existing advertiser contract rate'')
   \<and> apply_discounts ''Email Blast'' ''Blast Email - concierge'' 750 [] False False True None
        = (450, Some ''Existing advertiser contract rate'')
   \<and> product_rules ''Email Blast'' ''Blast Email - concierge'' 750 False False = (750, None)"
  using advertiser_override_short_circuits[of "''Email Blast''" "''Blast Email - concierge''" 750
          "[]" False False None True 450]
  by (simp add: product_rules_def)

section \<open>The dated rule and the billing date\<close>

text \<open>
  Claim C10.  With no billing date \<^const>\<open>apply_discounts\<close> is the advertiser override
  followed by the per-product rules, so the dated rule is never applied; for "Hotel Meetup"
  this gives the base price with no label, also for the early-bird tier.  With a billing
  date, the product "Hotel Meetup" and an option name that contains "Hotel Meetup 2026", the
  result is that of the dated branch for every tier, independent of the advertiser, bundle
  and prepay flags.
\<close>

theorem apply_discounts_billing_date:
  "apply_discounts product_name option_name base_price tier has_other prepay adv None
     = (case advertiser_overrides (strip product_name) (strip option_name) base_price tier adv of
          (Some adv_price, adv_label) \<Rightarrow> (adv_price, adv_label)
        | (None, adv_label) \<Rightarrow>
            product_rules (strip product_name) (strip option_name) base_price has_other prepay)
   \<and> apply_discounts ''Hotel Meetup'' option_name base_price tier has_other prepay adv None
     = (base_price, None)
   \<and> (sublist ''Hotel Meetup 2026'' option_name \<longrightarrow>
        apply_discounts ''Hotel Meetup'' option_name base_price tier has_other prepay adv (Some bd)
          = (if sublist EARLY_BIRD_TEXT tier
             then (if date_less bd (Date (year bd) 8 1)
                   then (2395, Some EARLY_BIRD_TEXT) else (2595, None))
             else (base_price, None)))"
proof (intro conjI impI)
  show "apply_discounts product_name option_name base_price tier has_other prepay adv None
     = (case advertiser_overrides (strip product_name) (strip option_name) base_price tier adv of
          (Some adv_price, adv_label) \<Rightarrow> (adv_price, adv_label)
        | (None, adv_label) \<Rightarrow>
            product_rules (strip product_name) (strip option_name) base_price has_other prepay)"
    by (simp add: apply_discounts_def Let_def)
next
  show "apply_discounts ''Hotel Meetup'' option_name base_price tier has_other prepay adv None
     = (base_price, None)"
    by (simp add: apply_discounts_def advertiser_overrides_def product_rules_def strip_hotel)
next
  assume a: "sublist ''Hotel Meetup 2026'' option_name"
  from hotel2026_strip[OF a]
  show "apply_discounts ''Hotel Meetup'' option_name base_price tier has_other prepay adv (Some bd)
          = (if sublist EARLY_BIRD_TEXT tier
             then (if date_less bd (Date (year bd) 8 1)
                   then (2395, Some EARLY_BIRD_TEXT) else (2595, None))
             else (base_price, None))"
    by (simp add: apply_discounts_def strip_hotel)
qed

theorem apply_discounts_billing_date_witness:
  "sublist ''Hotel Meetup 2026'' ''Hotel Meetup 2026''
   \<and> apply_discounts ''Hotel Meetup'' ''Hotel Meetup 2026'' 2395 EARLY_BIRD_TEXT False False True None
      = (2395, None)
   \<and> apply_discounts ''Hotel Meetup'' ''Hotel Meetup 2026'' 2395 EARLY_BIRD_TEXT False False True
        (Some (Date 2026 9 15))
      = (2595, None)
   \<and> apply_discounts ''Hotel Meetup'' ''Hotel Meetup 2026'' 1234 ''Retail'' False False True
        (Some (Date 2026 9 15))
      = (1234, None)"
  using apply_discounts_billing_date[of "''Hotel Meetup''" "''Hotel Meetup 2026''" 2395
          EARLY_BIRD_TEXT False False True "Date 2026 9 15", THEN conjunct2]
        apply_discounts_billing_date[of "''Hotel Meetup''" "''Hotel Meetup 2026''" 1234
          "''Retail''" False False True "Date 2026 9 15", THEN conjunct2]
  by (simp add: date_less_def EARLY_BIRD_TEXT_def sublist_code)

section \<open>The seasonal resolver\<close>

lemma scan_windows_no_match:
  "\<forall>(label, start, end) \<in> set ws. \<not> (start \<le> md \<and> md \<le> end) \<Longrightarrow>
   scan_windows ws sm opt_name md = None"
  by (induction ws) (auto split: option.splits)

text \<open>When no window of either table contains the date, the resolver returns no override.\<close>

lemma booth_season_no_window:
  assumes "\<forall>(label, start, end) \<in> set (EXACT_WINDOWS @ NAMED_WINDOWS).
             \<not> (start \<le> mmdd d \<and> mmdd d \<le> end)"
  shows "booth_season_for_date meta option_name d = Inr None"
proof -
  have "scan_windows EXACT_WINDOWS (seasonal_price_windows meta) option_name (mmdd d) = None"
    using assms by (intro scan_windows_no_match) auto
  moreover have
    "scan_windows NAMED_WINDOWS (seasonal_price_windows meta) option_name (mmdd d) = None"
    using assms by (intro scan_windows_no_match) auto
  ultimately show ?thesis by (simp add: booth_season_for_date_def Let_def)
qed

text \<open>
  Claim C2.  The resolver is claimed to return no override, and never to raise, when a
  window matches and the option has no price in it.  On the table \<^const>\<open>booth_meta\<close>, whose
  window 4/15-6/14 lists "Basic Booth" only, the option "Premium Booth" on May 1 makes
  \<^verbatim>\<open>float(None)\<close> raise \<^verbatim>\<open>TypeError\<close>; the listed option gets its price, and a date
  outside every window gets no override.
\<close>

theorem booth_season_missing_option_raises:
  "booth_season_for_date booth_meta ''Premium Booth'' (Date 2025 5 1) = Inl TypeError
   \<and> booth_season_for_date booth_meta ''Basic Booth'' (Date 2025 5 1) = Inr (Some 500)
   \<and> booth_season_for_date booth_meta ''Premium Booth'' (Date 2025 12 30) = Inr None"
  by (simp add: booth_meta_def booth_season_for_date_def EXACT_WINDOWS_def NAMED_WINDOWS_def
        mmdd_def dict_get_def)

section \<open>Line prices\<close>

text \<open>
  Claim C8.  The line price is the base price times the larger of the tier's duration
  multiplier and 1, where a missing map, an empty map, a missing entry and an entry that is
  not a number all count as 1; so it is the base price itself when the map is absent or
  empty, and never below a non-negative base price.
\<close>

theorem effective_line_price_formula:
  "effective_line_price product tier base = base * max (spec_duration_multiplier product tier) 1
   \<and> (duration_quarter_map product = None \<or> duration_quarter_map product = Some []
        \<longrightarrow> effective_line_price product tier base = base)
   \<and> (0 \<le> base \<longrightarrow> base \<le> effective_line_price product tier base)"
proof -
  have eq: "effective_line_price product tier base
              = base * max (spec_duration_multiplier product tier) 1"
    by (auto simp: effective_line_price_def spec_duration_multiplier_def Let_def
             split: option.splits pyval.splits)
  have "1 \<le> max (spec_duration_multiplier product tier) 1" by simp
  then have "0 \<le> base \<Longrightarrow> base * 1 \<le> base * max (spec_duration_multiplier product tier) 1"
    by (rule mult_left_mono)
  with eq show ?thesis
    by (auto simp: effective_line_price_def)
qed

theorem effective_line_price_formula_witness:
  "effective_line_price magazine ''4x'' 800 = 3200
   \<and> effective_line_price magazine ''2x'' 800 = 800
   \<and> effective_line_price magazine ''1x'' 1000 = 1000
   \<and> duration_quarter_map email_blast = None
   \<and> effective_line_price email_blast ''base'' 750 = 750
   \<and> (0::real) \<le> 800 \<and> 800 \<le> effective_line_price magazine ''4x'' 800"
proof -
  have m: "spec_duration_multiplier magazine ''4x'' = 4"
          "spec_duration_multiplier magazine ''2x'' = 1"
          "spec_duration_multiplier magazine ''1x'' = 1"
    by code_simp+
  have n: "duration_quarter_map email_blast = None" by (simp add: email_blast_def)
  from m n effective_line_price_formula[of magazine "''4x''" 800]
       effective_line_price_formula[of magazine "''2x''" 800]
       effective_line_price_formula[of magazine "''1x''" 1000]
       effective_line_price_formula[of email_blast "''base''" 750]
  show ?thesis by simp
qed

section \<open>Price points\<close>

lemma float_of_num_dots:
  assumes "\<forall>c \<in> set num. c = CHR ''.''"
  shows "float_of_num num = None"
proof (cases num)
  case Nil
  then show ?thesis by (simp add: float_of_num_def)
next
  case (Cons c fp)
  with assms have c: "c = CHR ''.''" and fp: "\<forall>c \<in> set fp. c = CHR ''.''" by auto
  show ?thesis
  proof (cases fp)
    case Nil
    with Cons c show ?thesis by (simp add: float_of_num_def)
  next
    case (Cons c' fp')
    with fp have "CHR ''.'' \<in> set fp" by auto
    with \<open>num = c # fp\<close> c show ?thesis by (simp add: float_of_num_def)
  qed
qed

lemma key_no_digit:
  assumes "\<forall>c \<in> set lbl. \<not> is_digit c"
  shows "key lbl price = (PInf, price)"
proof -
  have "float_of_num (filter (\<lambda>ch. is_digit ch \<or> ch = CHR ''.'') lbl) = None"
    using assms by (intro float_of_num_dots) auto
  then show ?thesis by (simp add: key_def)
qed

text \<open>
  Claim C7, as the code has it.  \<^const>\<open>price_points\<close> takes the first shape that is present,
  in the order tier map, plan map, scalar (labelled "base"), generic pricing map, and returns
  the empty list when none is.  Its result is a stable sort of the items by
  \<^const>\<open>key\<close>: the number read from all the digits and dots of the label, concatenated, or
  infinity when that text is no decimal numeral (in particular when the label has no digit),
  then the price.  It raises only when a price value is rejected by \<^verbatim>\<open>float()\<close>, never
  because of a label.
\<close>

theorem price_points_sorted_by_key:
  "(price_points opt = Inl e \<longleftrightarrow> price_items opt = Inl e)
   \<and> (price_items opt = Inr items \<longrightarrow>
        (\<exists>pts. price_points opt = Inr pts
           \<and> sorted (map (\<lambda>t. key (fst t) (snd t)) pts)
           \<and> mset pts = mset items
           \<and> (\<forall>k. filter (\<lambda>t. key (fst t) (snd t) = k) pts
                  = filter (\<lambda>t. key (fst t) (snd t) = k) items)))
   \<and> (price_usd opt = PriceDict d \<longrightarrow> price_items opt = float_items d)
   \<and> ((\<forall>d'. price_usd opt \<noteq> PriceDict d') \<and> price_usd_by_plan opt = Some d
        \<longrightarrow> price_items opt = float_items d)
   \<and> (price_usd opt = PriceScalar r \<and> price_usd_by_plan opt = None
        \<longrightarrow> price_items opt = Inr [(''base'', r)])
   \<and> (price_usd opt = PriceOther \<and> price_usd_by_plan opt = None \<and> pricing opt = Some d
        \<longrightarrow> price_items opt = float_items d)
   \<and> (price_usd opt = PriceOther \<and> price_usd_by_plan opt = None \<and> pricing opt = None
        \<longrightarrow> price_points opt = Inr [])
   \<and> ((\<forall>c \<in> set lbl. \<not> is_digit c) \<longrightarrow> key lbl price = (PInf, price))
   \<and> (float_of_num (filter (\<lambda>ch. is_digit ch \<or> ch = CHR ''.'') lbl) = Some v
        \<longrightarrow> key lbl price = (Fin v, price))"
proof (intro conjI impI)
  show "price_points opt = Inl e \<longleftrightarrow> price_items opt = Inl e"
    by (simp add: price_points_def split: sum.splits)
next
  assume "price_items opt = Inr items"
  then have "price_points opt = Inr (sort_key (\<lambda>t. key (fst t) (snd t)) items)"
    by (simp add: price_points_def)
  then show "\<exists>pts. price_points opt = Inr pts
           \<and> sorted (map (\<lambda>t. key (fst t) (snd t)) pts)
           \<and> mset pts = mset items
           \<and> (\<forall>k. filter (\<lambda>t. key (fst t) (snd t) = k) pts
                  = filter (\<lambda>t. key (fst t) (snd t) = k) items)"
    by (simp add: sort_key_stable)
next
  assume "price_usd opt = PriceDict d"
  then show "price_items opt = float_items d" by (simp add: price_items_def)
next
  assume "(\<forall>d'. price_usd opt \<noteq> PriceDict d') \<and> price_usd_by_plan opt = Some d"
  then show "price_items opt = float_items d"
    by (cases "price_usd opt") (simp_all add: price_items_def)
next
  assume "price_usd opt = PriceScalar r \<and> price_usd_by_plan opt = None"
  then show "price_items opt = Inr [(''base'', r)]" by (simp add: price_items_def)
next
  assume "price_usd opt = PriceOther \<and> price_usd_by_plan opt = None \<and> pricing opt = Some d"
  then show "price_items opt = float_items d" by (simp add: price_items_def)
next
  assume "price_usd opt = PriceOther \<and> price_usd_by_plan opt = None \<and> pricing opt = None"
  then show "price_points opt = Inr []" by (simp add: price_items_def price_points_def)
next
  assume "\<forall>c \<in> set lbl. \<not> is_digit c"
  then show "key lbl price = (PInf, price)" by (rule key_no_digit)
next
  assume "float_of_num (filter (\<lambda>ch. is_digit ch \<or> ch = CHR ''.'') lbl) = Some v"
  then show "key lbl price = (Fin v, price)" by (simp add: key_def)
qed

lemma tier_items: "price_items tier_option = Inr [(''2X 12mo'', 100), (''3X'', 50), (''Retail'', 10)]"
  by (simp add: tier_option_def price_items_def)

lemma tier_points: "price_points tier_option = Inr [(''3X'', 50), (''2X 12mo'', 100), (''Retail'', 10)]"
  by (simp add: tier_option_def price_points_def price_items_def key_def is_digit_def float_of_num_def digits_val_def digit_val_def)

text \<open>The order is not that of the leading numeric token: "2X 12mo" has the leading
  token 2, yet it is placed after "3X", because its digits read 212.\<close>

theorem price_points_not_by_leading_token:
  "price_points tier_option = Inr [(''3X'', 50), (''2X 12mo'', 100), (''Retail'', 10)]
   \<and> leading_key ''2X 12mo'' 100 < leading_key ''3X'' 50"
  by (simp add: tier_points leading_key_def leading_token_def is_digit_def float_of_num_def digits_val_def digit_val_def)

theorem price_points_sorted_by_key_witness:
  "price_items tier_option = Inr [(''2X 12mo'', 100), (''3X'', 50), (''Retail'', 10)]
   \<and> price_points tier_option = Inr [(''3X'', 50), (''2X 12mo'', 100), (''Retail'', 10)]
   \<and> sorted [key ''3X'' 50, key ''2X 12mo'' 100, key ''Retail'' 10]
   \<and> key ''Retail'' 10 = (PInf, 10)"
proof -
  note t = price_points_sorted_by_key[where opt = tier_option and items = "[(''2X 12mo'', 100), (''3X'', 50), (''Retail'', 10)]"
             and lbl = "''Retail''" and price = 10]
  from t tier_items
  have "\<exists>pts. price_points tier_option = Inr pts
          \<and> sorted (map (\<lambda>t. key (fst t) (snd t)) pts)"
    by blast
  with tier_points
  have s: "sorted (map (\<lambda>t. key (fst t) (snd t)) [(''3X'', 50), (''2X 12mo'', 100), (''Retail'', 10)])"
    by auto
  from t have "(\<forall>c \<in> set ''Retail''. \<not> is_digit c) \<longrightarrow> key ''Retail'' 10 = (PInf, 10)"
    by blast
  then have k: "key ''Retail'' 10 = (PInf, 10)"
    by (simp add: is_digit_def)
  from s have "sorted [key ''3X'' 50, key ''2X 12mo'' 100, key ''Retail'' 10]"
    by simp
  with k tier_items tier_points show ?thesis
    by blast
qed

section \<open>The upgrade pass\<close>

lemma find_SomeD: "find P xs = Some x \<Longrightarrow> P x \<and> x \<in> set xs"
  by (auto simp: find_Some_iff)

lemma upgrade_pass_ConsE:
  assumes "upgrade_pass budget products meta d adv ((pname, cur_opt, cur_lbl, cur_base) # items)
             pks sub imp = Inr r"
  obtains
    (keep) product cs where
      "map_of products pname = Some product"
      "candidates meta d adv pname product = Inr cs"
      "upgrade_pass budget products meta d adv items pks sub imp = Inr r"
  | (adopt) product cs opt_name lbl eff_base new_line where
      "map_of products pname = Some product"
      "candidates meta d adv pname product = Inr cs"
      "(opt_name, lbl, eff_base, new_line) \<in> set cs"
      "effective_line_price product cur_lbl cur_base < new_line"
      "sub - effective_line_price product cur_lbl cur_base + new_line \<le> budget"
      "upgrade_pass budget products meta d adv items
         (AList.update pname (opt_name, lbl, eff_base) pks)
         (sub - effective_line_price product cur_lbl cur_base + new_line) True = Inr r"
proof -
  from assms obtain product where p: "map_of products pname = Some product"
    by (auto split: option.splits)
  from assms p obtain cs where cs: "candidates meta d adv pname product = Inr cs"
    by (auto simp: Let_def split: sum.splits)
  define cur_line where "cur_line = effective_line_price product cur_lbl cur_base"
  define upgrades where "upgrades = sort_key (\<lambda>c. snd (snd (snd c)))
                                 (filter (\<lambda>c. cur_line < snd (snd (snd c))) cs)"
  show thesis
  proof (cases "find (\<lambda>c. sub - cur_line + snd (snd (snd c)) \<le> budget) upgrades")
    case None
    with assms p cs
    have "upgrade_pass budget products meta d adv items pks sub imp = Inr r"
      by (simp add: cur_line_def upgrades_def)
    with p cs show thesis by (rule keep)
  next
    case (Some c)
    obtain opt_name lbl eff_base new_line where c: "c = (opt_name, lbl, eff_base, new_line)"
      by (cases c) auto
    from find_SomeD[OF Some] c
    have fit: "sub - cur_line + new_line \<le> budget" and u: "c \<in> set upgrades" by auto
    from u c have more: "cur_line < new_line" and mem: "(opt_name, lbl, eff_base, new_line) \<in> set cs"
      by (auto simp: upgrades_def)
    from assms p cs Some c
    have "upgrade_pass budget products meta d adv items
            (AList.update pname (opt_name, lbl, eff_base) pks) (sub - cur_line + new_line) True
          = Inr r"
      by (simp add: cur_line_def upgrades_def)
    with p cs mem more fit show thesis unfolding cur_line_def by (rule adopt)
  qed
qed

lemma upgrade_pass_subtotal:
  "upgrade_pass budget products meta d adv items pks sub imp = Inr (pks', sub', imp') \<Longrightarrow>
   sub \<le> sub' \<and> (sub \<le> budget \<longrightarrow> sub' \<le> budget) \<and> (imp \<longrightarrow> imp')
   \<and> (\<not> imp' \<longrightarrow> pks' = pks \<and> sub' = sub) \<and> (imp' \<and> \<not> imp \<longrightarrow> sub < sub')"
proof (induction items arbitrary: pks sub imp)
  case Nil
  then show ?case by simp
next
  case (Cons item items)
  obtain pname cur_opt cur_lbl cur_base where item: "item = (pname, cur_opt, cur_lbl, cur_base)"
    by (cases item) auto
  from Cons.prems[unfolded item] show ?case
  proof (cases rule: upgrade_pass_ConsE)
    case (keep product cs)
    from Cons.IH[OF keep(3)] show ?thesis .
  next
    case (adopt product cs opt_name lbl eff_base new_line)
    from Cons.IH[OF adopt(6)] adopt(4,5) show ?thesis by auto
  qed
qed

lemma upgrade_loop_subtotal_aux:
  assumes "upgrade_loop budget products meta d adv pks sub = Some y"
  shows "\<forall>pks' sub'. y = Inr (pks', sub') \<longrightarrow> sub \<le> sub' \<and> (sub \<le> budget \<longrightarrow> sub' \<le> budget)"
  using assms
proof (induction rule: upgrade_loop.raw_induct[rotated, consumes 1, case_names step])
  case (step upgrade_loop budget products meta d adv pks sub y)
  show ?case
  proof (cases "upgrade_pass budget products meta d adv pks pks sub False")
    case (Inl e)
    with step(2) show ?thesis by auto
  next
    case (Inr r)
    obtain pks1 sub1 imp1 where r: "r = (pks1, sub1, imp1)" by (cases r) auto
    from upgrade_pass_subtotal[OF Inr[unfolded r]]
    have s: "sub \<le> sub1" "sub \<le> budget \<longrightarrow> sub1 \<le> budget" by auto
    show ?thesis
    proof (cases imp1)
      case True
      with step(2) Inr r have "upgrade_loop budget products meta d adv pks1 sub1 = Some y" by simp
      from step(1)[OF this] s show ?thesis by auto
    next
      case False
      with step(2) Inr r s show ?thesis by auto
    qed
  qed
qed

lemma upgrade_loop_subtotal:
  assumes "upgrade_loop budget products meta d adv pks sub = Some (Inr (pks', sub'))"
  shows "sub \<le> sub' \<and> (sub \<le> budget \<longrightarrow> sub' \<le> budget)"
  using upgrade_loop_subtotal_aux[OF assms] by blast


lemma point_cands_line:
  "point_cands pname product m d adv opt_name pts = Inr cs \<Longrightarrow>
   (o', l, b, line) \<in> set cs \<Longrightarrow> line = effective_line_price product l b"
proof (induction pts arbitrary: cs)
  case Nil
  then show ?case by simp
next
  case (Cons pt pts)
  obtain lbl base_price where pt: "pt = (lbl, base_price)" by (cases pt) auto
  from Cons.prems(1) pt obtain eff rest where
    r: "point_cands pname product m d adv opt_name pts = Inr rest"
       "cs = (opt_name, lbl, eff, effective_line_price product lbl eff) # rest"
    by (auto split: sum.splits)
  with Cons.prems(2) Cons.IH[OF r(1)] show ?case by auto
qed

lemma option_cands_line:
  "option_cands pname product m d adv opts = Inr cs \<Longrightarrow>
   (o', l, b, line) \<in> set cs \<Longrightarrow> line = effective_line_price product l b"
proof (induction opts arbitrary: cs)
  case Nil
  then show ?case by simp
next
  case (Cons opt opts)
  define opt_name where "opt_name = (case name opt of None \<Rightarrow> pname | Some n \<Rightarrow> n)"
  show ?case
  proof (cases "option_skipped pname opt_name adv")
    case True
    with Cons.prems(1) have "option_cands pname product m d adv opts = Inr cs"
      by (simp add: opt_name_def)
    from Cons.IH[OF this Cons.prems(2)] show ?thesis .
  next
    case False
    with Cons.prems(1) obtain pts cs1 rest where
      r: "point_cands pname product m d adv opt_name pts = Inr cs1"
         "option_cands pname product m d adv opts = Inr rest" "cs = cs1 @ rest"
      by (auto simp: opt_name_def Let_def split: sum.splits)
    with Cons.prems(2) Cons.IH[OF r(2)] point_cands_line[OF r(1)] show ?thesis by auto
  qed
qed

lemma candidates_line:
  "candidates meta d adv pname product = Inr cs \<Longrightarrow>
   (o', l, b, line) \<in> set cs \<Longrightarrow> line = effective_line_price product l b"
  unfolding candidates_def by (rule option_cands_line)

lemma sum_list_update:
  "map_of pks k = Some v \<Longrightarrow>
   sum_list (map f (AList.update k v' pks)) + f (k, v) = sum_list (map f pks) + (f (k, v') :: nat)"
  by (induction pks) (auto split: if_splits)

lemma length_filter_less:
  assumes "x \<in> set xs" "Q x" "\<not> P x" "\<And>y. P y \<Longrightarrow> Q y"
  shows "length (filter P xs) < length (filter Q xs)"
  using assms(1)
proof (induction xs)
  case Nil
  then show ?case by simp
next
  case (Cons a xs)
  have le: "length (filter P xs) \<le> length (filter Q xs)"
    by (induction xs) (auto dest: assms(4))
  show ?case
  proof (cases "x = a")
    case True
    with assms(2,3) le show ?thesis by simp
  next
    case False
    with Cons have "length (filter P xs) < length (filter Q xs)" by simp
    then show ?thesis by (auto dest: assms(4))
  qed
qed

lemma room_adopt:
  assumes "map_of products pname = Some product"
    and "candidates meta d adv pname product = Inr cs"
    and "(opt_name, lbl, eff_base, new_line) \<in> set cs"
    and "effective_line_price product cur_lbl cur_base < new_line"
  shows "room products meta d adv (pname, opt_name, lbl, eff_base)
           < room products meta d adv (pname, cur_opt, cur_lbl, cur_base)"
proof -
  have nl: "new_line = effective_line_price product lbl eff_base"
    using candidates_line[OF assms(2,3)] .
  have "length (filter (\<lambda>c. new_line < snd (snd (snd c))) cs)
          < length (filter (\<lambda>c. effective_line_price product cur_lbl cur_base < snd (snd (snd c))) cs)"
    using assms(3,4) by (intro length_filter_less[where x = "(opt_name, lbl, eff_base, new_line)"]) auto
  with assms(1,2) nl show ?thesis by (simp add: room_def)
qed

lemma upgrade_pass_room:
  assumes "upgrade_pass budget products meta d adv items pks sub imp = Inr (pks', sub', imp')"
    and "distinct (map fst items)"
    and "\<forall>(k, v) \<in> set items. map_of pks k = Some v"
  shows "total_room products meta d adv pks' \<le> total_room products meta d adv pks
       \<and> (imp' \<and> \<not> imp \<longrightarrow> total_room products meta d adv pks' < total_room products meta d adv pks)
       \<and> map fst pks' = map fst pks"
  using assms
proof (induction items arbitrary: pks sub imp)
  case Nil
  then show ?case by simp
next
  case (Cons item items)
  obtain pname cur_opt cur_lbl cur_base where item: "item = (pname, cur_opt, cur_lbl, cur_base)"
    by (cases item) auto
  from Cons.prems(2) have d: "distinct (map fst items)" and nk: "pname \<notin> fst ` set items"
    by (auto simp: item)
  from Cons.prems(3) have cur: "map_of pks pname = Some (cur_opt, cur_lbl, cur_base)"
    and rest: "\<forall>(k, v) \<in> set items. map_of pks k = Some v"
    by (auto simp: item)
  from Cons.prems(1)[unfolded item] show ?case
  proof (cases rule: upgrade_pass_ConsE)
    case (keep product cs)
    from Cons.IH[OF keep(3) d rest] show ?thesis .
  next
    case (adopt product cs opt_name lbl eff_base new_line)
    define pks2 where "pks2 = AList.update pname (opt_name, lbl, eff_base) pks"
    have rest2: "\<forall>(k, v) \<in> set items. map_of pks2 k = Some v"
      using rest nk by (force simp: pks2_def update_conv)
    from Cons.IH[OF adopt(6)[folded pks2_def] d rest2]
    have ih: "total_room products meta d adv pks' \<le> total_room products meta d adv pks2"
             "map fst pks' = map fst pks2" by auto
    from cur have "pname \<in> set (map fst pks)" by (auto dest: map_of_SomeD intro: rev_image_eqI)
    then have keys: "map fst pks2 = map fst pks" by (simp add: pks2_def update_keys)
    have "total_room products meta d adv pks2 + room products meta d adv (pname, cur_opt, cur_lbl, cur_base)
          = total_room products meta d adv pks + room products meta d adv (pname, opt_name, lbl, eff_base)"
      unfolding total_room_def pks2_def by (rule sum_list_update[OF cur])
    with room_adopt[OF adopt(1,2,3,4), of cur_opt]
    have "total_room products meta d adv pks2 < total_room products meta d adv pks" by linarith
    with ih keys show ?thesis by auto
  qed
qed

lemma upgrade_pass_room_start:
  assumes "upgrade_pass budget products meta d adv pks pks sub False = Inr (pks', sub', imp')"
    and "distinct (map fst pks)"
  shows "(imp' \<longrightarrow> total_room products meta d adv pks' < total_room products meta d adv pks)
       \<and> map fst pks' = map fst pks"
proof -
  have "\<forall>(k, v) \<in> set pks. map_of pks k = Some v"
    using assms(2) by auto
  from upgrade_pass_room[OF assms(1,2) this] show ?thesis by auto
qed

lemma upgrade_loop_terminates:
  "distinct (map fst pks) \<Longrightarrow> \<exists>r. upgrade_loop budget products meta d adv pks sub = Some r"
proof (induction "total_room products meta d adv pks" arbitrary: pks sub rule: less_induct)
  case less
  show ?case
  proof (cases "upgrade_pass budget products meta d adv pks pks sub False")
    case (Inl e)
    then show ?thesis by (subst upgrade_loop.simps) simp
  next
    case (Inr r)
    obtain pks1 sub1 imp1 where r: "r = (pks1, sub1, imp1)" by (cases r) auto
    note m = upgrade_pass_room_start[OF Inr[unfolded r] less.prems]
    show ?thesis
    proof (cases imp1)
      case True
      with m have "total_room products meta d adv pks1 < total_room products meta d adv pks"
        and "distinct (map fst pks1)" using less.prems by auto
      from less.hyps[OF this] obtain r' where
        "upgrade_loop budget products meta d adv pks1 sub1 = Some r'" by blast
      with Inr r True show ?thesis by (subst upgrade_loop.simps) simp
    next
      case False
      with Inr r show ?thesis by (subst upgrade_loop.simps) simp
    qed
  qed
qed


lemma pick_best_None: "pick_best cs best = None \<longleftrightarrow> cs = [] \<and> best = None"
  by (induction cs best rule: pick_best.induct) (auto split: option.splits)

lemma baseline_distinct:
  "baseline meta d adv ps pks sub = Inr (pks', sub') \<Longrightarrow> distinct (map fst pks) \<Longrightarrow>
   distinct (map fst pks') \<and> set (map fst pks') \<subseteq> set (map fst pks) \<union> set (map fst ps)"
proof (induction ps arbitrary: pks sub)
  case Nil
  then show ?case by auto
next
  case (Cons p ps)
  obtain pname product where p: "p = (pname, product)" by (cases p) auto
  from Cons.prems(1) p obtain cs where cs: "candidates meta d adv pname product = Inr cs"
    by (auto split: sum.splits)
  show ?case
  proof (cases "pick_best cs None")
    case None
    with Cons.prems(1) p cs have "baseline meta d adv ps pks sub = Inr (pks', sub')" by simp
    from Cons.IH[OF this Cons.prems(2)] show ?thesis by auto
  next
    case (Some b)
    obtain opt_name lbl eff_base best_line where b: "b = ((opt_name, lbl, eff_base), best_line)"
      by (cases b) auto
    from Cons.prems(1) p cs Some b
    have "baseline meta d adv ps (AList.update pname (opt_name, lbl, eff_base) pks)
            (sub + effective_line_price product lbl eff_base) = Inr (pks', sub')" by simp
    from Cons.IH[OF this distinct_update[OF Cons.prems(2)]] show ?thesis
      by (auto simp: p update_keys split: if_splits)
  qed
qed

lemma baseline_keys:
  "baseline meta d adv ps pks sub = Inr (pks', sub') \<Longrightarrow> distinct (map fst ps) \<Longrightarrow>
   set (map fst ps) \<inter> set (map fst pks) = {} \<Longrightarrow>
   map fst pks' = map fst pks
      @ map fst (filter (\<lambda>(pname, product). candidates meta d adv pname product \<noteq> Inr []) ps)"
proof (induction ps arbitrary: pks sub)
  case Nil
  then show ?case by auto
next
  case (Cons p ps)
  obtain pname product where p: "p = (pname, product)" by (cases p) auto
  from Cons.prems(1) p obtain cs where cs: "candidates meta d adv pname product = Inr cs"
    by (auto split: sum.splits)
  from Cons.prems(2,3) p have fresh: "pname \<notin> set (map fst pks)" "pname \<notin> set (map fst ps)"
    and d: "distinct (map fst ps)" and dj: "set (map fst ps) \<inter> set (map fst pks) = {}"
    by auto
  show ?case
  proof (cases "pick_best cs None")
    case None
    then have "cs = []" by (simp add: pick_best_None)
    moreover from None Cons.prems(1) p cs
    have "baseline meta d adv ps pks sub = Inr (pks', sub')" by simp
    from Cons.IH[OF this d dj] have
      "map fst pks' = map fst pks
         @ map fst (filter (\<lambda>(pname, product). candidates meta d adv pname product \<noteq> Inr []) ps)" .
    ultimately show ?thesis using p cs by simp
  next
    case (Some b)
    then have ne: "cs \<noteq> []" using pick_best_None[of cs None] by auto
    obtain opt_name lbl eff_base best_line where b: "b = ((opt_name, lbl, eff_base), best_line)"
      by (cases b) auto
    define pks2 where "pks2 = AList.update pname (opt_name, lbl, eff_base) pks"
    from Cons.prems(1) p cs Some b
    have r: "baseline meta d adv ps pks2 (sub + effective_line_price product lbl eff_base)
             = Inr (pks', sub')" by (simp add: pks2_def)
    have k2: "map fst pks2 = map fst pks @ [pname]"
      using fresh(1) by (simp add: pks2_def update_keys)
    with fresh(2) dj have "set (map fst ps) \<inter> set (map fst pks2) = {}" by auto
    from Cons.IH[OF r d this] k2 ne p cs show ?thesis by simp
  qed
qed

lemma baseline_ok:
  "\<forall>(pname, product) \<in> set ps. \<exists>cs. candidates meta d adv pname product = Inr cs \<Longrightarrow>
   \<exists>r. baseline meta d adv ps pks sub = Inr r"
proof (induction ps arbitrary: pks sub)
  case Nil
  then show ?case by simp
next
  case (Cons p ps)
  obtain pname product where p: "p = (pname, product)" by (cases p) auto
  from Cons.prems p obtain cs where cs: "candidates meta d adv pname product = Inr cs" by auto
  from Cons.prems have "\<forall>(pname, product) \<in> set ps. \<exists>cs. candidates meta d adv pname product = Inr cs"
    by auto
  from Cons.IH[OF this] p cs show ?case
    by (cases "pick_best cs None") auto
qed

lemma upgrade_pass_ok:
  "\<forall>k \<in> fst ` set items. \<exists>product cs. map_of products k = Some product
        \<and> candidates meta d adv k product = Inr cs \<Longrightarrow>
   \<exists>r. upgrade_pass budget products meta d adv items pks sub imp = Inr r"
proof (induction items arbitrary: pks sub imp)
  case Nil
  then show ?case by simp
next
  case (Cons item items)
  obtain pname cur_opt cur_lbl cur_base where item: "item = (pname, cur_opt, cur_lbl, cur_base)"
    by (cases item) auto
  from Cons.prems item obtain product cs where
    pc: "map_of products pname = Some product" "candidates meta d adv pname product = Inr cs"
    by auto
  from Cons.prems have "\<forall>k \<in> fst ` set items. \<exists>product cs. map_of products k = Some product
        \<and> candidates meta d adv k product = Inr cs" by auto
  note ih = Cons.IH[OF this]
  show ?case unfolding item
    using pc ih by (auto simp: Let_def split: option.splits)
qed

lemma upgrade_loop_ok:
  "distinct (map fst pks) \<Longrightarrow>
   \<forall>k \<in> fst ` set pks. \<exists>product cs. map_of products k = Some product
        \<and> candidates meta d adv k product = Inr cs \<Longrightarrow>
   \<exists>pks' sub'. upgrade_loop budget products meta d adv pks sub = Some (Inr (pks', sub'))"
proof (induction "total_room products meta d adv pks" arbitrary: pks sub rule: less_induct)
  case less
  from upgrade_pass_ok[OF less.prems(2)] obtain r where
    pass: "upgrade_pass budget products meta d adv pks pks sub False = Inr r" by blast
  obtain pks1 sub1 imp1 where r: "r = (pks1, sub1, imp1)" by (cases r) auto
  note m = upgrade_pass_room_start[OF pass[unfolded r] less.prems(1)]
  show ?case
  proof (cases imp1)
    case True
    with m have lt: "total_room products meta d adv pks1 < total_room products meta d adv pks"
      and keys: "map fst pks1 = map fst pks" by auto
    from keys less.prems(1) have d1: "distinct (map fst pks1)" by simp
    from keys have "fst ` set pks1 = fst ` set pks" by (metis set_map)
    with less.prems(2) have "\<forall>k \<in> fst ` set pks1. \<exists>product cs. map_of products k = Some product
        \<and> candidates meta d adv k product = Inr cs" by simp
    from less.hyps[OF lt d1 this] obtain pks' sub' where
      "upgrade_loop budget products meta d adv pks1 sub1 = Some (Inr (pks', sub'))" by blast
    with pass r True show ?thesis by (subst upgrade_loop.simps) simp
  next
    case False
    with pass r show ?thesis by (subst upgrade_loop.simps) simp
  qed
qed

lemma upgrade_loop_keys_aux:
  assumes "upgrade_loop budget products meta d adv pks sub = Some y"
  shows "distinct (map fst pks) \<longrightarrow> (\<forall>pks' sub'. y = Inr (pks', sub') \<longrightarrow> map fst pks' = map fst pks)"
  using assms
proof (induction rule: upgrade_loop.raw_induct[rotated, consumes 1, case_names step])
  case (step upgrade_loop budget products meta d adv pks sub y)
  show ?case
  proof (intro impI)
    assume dist: "distinct (map fst pks)"
    show "\<forall>pks' sub'. y = Inr (pks', sub') \<longrightarrow> map fst pks' = map fst pks"
    proof (cases "upgrade_pass budget products meta d adv pks pks sub False")
      case (Inl e)
      with step(2) show ?thesis by auto
    next
      case (Inr r)
      obtain pks1 sub1 imp1 where r: "r = (pks1, sub1, imp1)" by (cases r) auto
      from upgrade_pass_room_start[OF Inr[unfolded r] dist]
      have keys: "map fst pks1 = map fst pks" by simp
      show ?thesis
      proof (cases imp1)
        case True
        with step(2) Inr r have "upgrade_loop budget products meta d adv pks1 sub1 = Some y" by simp
        from step(1)[OF this] keys dist show ?thesis by auto
      next
        case False
        with step(2) Inr r keys show ?thesis by auto
      qed
    qed
  qed
qed

lemma upgrade_loop_keys:
  assumes "upgrade_loop budget products meta d adv pks sub = Some (Inr (pks', sub'))"
    and "distinct (map fst pks)"
  shows "map fst pks' = map fst pks"
  using upgrade_loop_keys_aux[OF assms(1)] assms(2) by blast

section \<open>The allocator: candidates, Phase A, Phase B\<close>

lemma round2_le_cents:
  assumes "x \<le> b" and "b * 100 = of_int n"
  shows "round2 x \<le> b"
proof -
  define y where "y = x * 100"
  define f where "f = \<lfloor>y\<rfloor>"
  define k :: real where "k = (if y - of_int f < 1 / 2 then of_int f
          else if 1 / 2 < y - of_int f then of_int (f + 1)
          else if even f then of_int f else of_int (f + 1))"
  have yn: "y \<le> of_int n" using assms by (simp add: y_def)
  have f1: "of_int f \<le> y" by (simp add: f_def)
  from f1 yn have "(of_int f :: real) \<le> of_int n" by linarith
  then have fn: "f \<le> n" by simp
  have fn1: "f + 1 \<le> n" if "1 / 2 \<le> y - of_int f"
  proof -
    from that f1 yn have "(of_int f :: real) < of_int n" by linarith
    then have "f < n" by simp
    then show ?thesis by simp
  qed
  have "k \<le> of_int n"
  proof (cases "y - of_int f < 1 / 2")
    case True
    with fn show ?thesis by (simp add: k_def)
  next
    case False
    then have "1 / 2 \<le> y - of_int f" by simp
    from fn1[OF this] have "(of_int (f + 1) :: real) \<le> of_int n" by (simp only: of_int_le_iff)
    moreover from fn have "(of_int f :: real) \<le> of_int n" by simp
    ultimately show ?thesis unfolding k_def by presburger
  qed
  then have "k / 100 \<le> b" using assms(2) by simp
  moreover have "round2 x = k / 100"
    by (simp add: round2_def Let_def k_def f_def y_def)
  ultimately show ?thesis by simp
qed

lemma point_cands_labels:
  "point_cands pname product m d adv opt_name pts = Inr cs \<Longrightarrow>
   map (\<lambda>c. (fst c, fst (snd c))) cs = map (\<lambda>(lbl, base_price). (opt_name, lbl)) pts"
proof (induction pts arbitrary: cs)
  case Nil
  then show ?case by simp
next
  case (Cons pt pts)
  obtain lbl base_price where pt: "pt = (lbl, base_price)" by (cases pt) auto
  from Cons.prems(1) pt obtain eff rest where
    r: "point_cands pname product m d adv opt_name pts = Inr rest"
       "cs = (opt_name, lbl, eff, effective_line_price product lbl eff) # rest"
    by (auto split: sum.splits)
  with Cons.IH[OF r(1)] pt show ?case by simp
qed

lemma option_cands_labels:
  "option_cands pname product m d adv opts = Inr cs \<Longrightarrow>
   map (\<lambda>c. (fst c, fst (snd c))) cs
     = map (\<lambda>p. (fst p, fst (snd p))) (unskipped_points pname adv opts)"
proof (induction opts arbitrary: cs)
  case Nil
  then show ?case by simp
next
  case (Cons opt opts)
  define opt_name where "opt_name = (case name opt of None \<Rightarrow> pname | Some n \<Rightarrow> n)"
  show ?case
  proof (cases "option_skipped pname opt_name adv")
    case True
    with Cons.prems(1) have "option_cands pname product m d adv opts = Inr cs"
      by (simp add: opt_name_def)
    from Cons.IH[OF this] True show ?thesis by (simp add: opt_name_def)
  next
    case False
    with Cons.prems(1) obtain pts cs1 rest where
      r: "price_points opt = Inr pts"
         "point_cands pname product m d adv opt_name pts = Inr cs1"
         "option_cands pname product m d adv opts = Inr rest" "cs = cs1 @ rest"
      by (auto simp: opt_name_def Let_def split: sum.splits)
    have e: "unskipped_points pname adv (opt # opts)
               = map (\<lambda>(lbl, base_price). (opt_name, lbl, base_price)) pts
                 @ unskipped_points pname adv opts"
      using False r(1) by (simp add: opt_name_def Let_def)
    have "map (\<lambda>c. (fst c, fst (snd c))) cs1
            = map (\<lambda>p. (fst p, fst (snd p)))
                (map (\<lambda>(lbl, base_price). (opt_name, lbl, base_price)) pts)"
      unfolding point_cands_labels[OF r(2)] by (simp add: case_prod_beta)
    then show ?thesis
      unfolding e r(4) using Cons.IH[OF r(3)] by simp
  qed
qed

lemma candidates_empty_iff:
  assumes "candidates meta d adv pname product = Inr cs"
  shows "cs = [] \<longleftrightarrow> unskipped_points pname adv (price_options product) = []"
proof -
  have "map (\<lambda>c. (fst c, fst (snd c))) cs
          = map (\<lambda>p. (fst p, fst (snd p))) (unskipped_points pname adv (price_options product))"
    using assms unfolding candidates_def by (rule option_cands_labels)
  then have "length (map (\<lambda>c. (fst c, fst (snd c))) cs)
          = length (map (\<lambda>p. (fst p, fst (snd p)))
                      (unskipped_points pname adv (price_options product)))"
    by (rule arg_cong)
  then have "length cs = length (unskipped_points pname adv (price_options product))"
    by (simp only: length_map)
  then show ?thesis by (metis length_0_conv)
qed

lemma baseline_all_ok:
  "baseline meta d adv ps pks sub = Inr r \<Longrightarrow>
   \<forall>(pname, product) \<in> set ps. \<exists>cs. candidates meta d adv pname product = Inr cs"
proof (induction ps arbitrary: pks sub)
  case Nil
  then show ?case by simp
next
  case (Cons p ps)
  obtain pname product where p: "p = (pname, product)" by (cases p) auto
  from Cons.prems p obtain cs where cs: "candidates meta d adv pname product = Inr cs"
    by (auto split: sum.splits)
  from Cons.prems p cs obtain pks2 sub2 where "baseline meta d adv ps pks2 sub2 = Inr r"
    by (cases "pick_best cs None") auto
  from Cons.IH[OF this] p cs show ?case by auto
qed

lemma greedy_Inr:
  assumes "greedy_fill_to_cap budget products meta d adv = Some (Inr sel)"
  obtains pks0 sub0 sub1 where
    "baseline meta d adv products [] 0 = Inr (pks0, sub0)"
    "upgrade_loop budget products meta d adv pks0 sub0 = Some (Inr (picks sel, sub1))"
    "subtotal sel = round2 sub1"
  using assms unfolding greedy_fill_to_cap_def
  by (auto split: sum.splits option.splits)

lemma greedy_keys:
  assumes "distinct (map fst products)"
    and g: "greedy_fill_to_cap budget products meta d adv = Some (Inr sel)"
  shows "map fst (picks sel)
              = map fst (filter (\<lambda>(pname, product).
                           unskipped_points pname adv (price_options product) \<noteq> []) products)
            \<and> distinct (map fst (picks sel))"
proof -
  from g obtain pks0 sub0 sub1 where
    b: "baseline meta d adv products [] 0 = Inr (pks0, sub0)" and
    l: "upgrade_loop budget products meta d adv pks0 sub0 = Some (Inr (picks sel, sub1))"
    by (rule greedy_Inr)
  from baseline_distinct[OF b] have d0: "distinct (map fst pks0)" by simp
  from upgrade_loop_keys[OF l d0] have k: "map fst (picks sel) = map fst pks0" .
  from baseline_keys[OF b assms(1)] have
    k0: "map fst pks0 = map fst (filter (\<lambda>(pname, product).
                           candidates meta d adv pname product \<noteq> Inr []) products)" by simp
  have "filter (\<lambda>(pname, product). candidates meta d adv pname product \<noteq> Inr []) products
      = filter (\<lambda>(pname, product). unskipped_points pname adv (price_options product) \<noteq> []) products"
  proof (rule filter_cong[OF refl])
    fix p assume p: "p \<in> set products"
    obtain pname product where pp: "p = (pname, product)" by (cases p) auto
    from baseline_all_ok[OF b] p pp obtain cs where
      cs: "candidates meta d adv pname product = Inr cs" by auto
    from candidates_empty_iff[OF cs] cs pp
    show "(case p of (pname, product) \<Rightarrow> candidates meta d adv pname product \<noteq> Inr [])
        = (case p of (pname, product) \<Rightarrow> unskipped_points pname adv (price_options product) \<noteq> [])"
      by simp
  qed
  with k k0 d0 show ?thesis by simp
qed

lemma greedy_ok:
  assumes ok: "\<forall>(pname, product) \<in> set products.
              \<exists>cs. candidates meta d adv pname product = Inr cs"
  shows "\<exists>sel. greedy_fill_to_cap budget products meta d adv = Some (Inr sel)"
proof -
  from baseline_ok[OF ok] obtain pks0 sub0 where
    b: "baseline meta d adv products [] 0 = Inr (pks0, sub0)" by force
  from baseline_distinct[OF b] have d0: "distinct (map fst pks0)"
    and sub: "set (map fst pks0) \<subseteq> set (map fst products)" by auto
  have "\<forall>k \<in> fst ` set pks0. \<exists>product cs. map_of products k = Some product
        \<and> candidates meta d adv k product = Inr cs"
  proof
    fix k assume "k \<in> fst ` set pks0"
    with sub have "k \<in> fst ` set products" by auto
    then obtain product where m: "map_of products k = Some product"
      by (metis domD dom_map_of_conv_image_fst)
    from map_of_SomeD[OF m] ok obtain cs where "candidates meta d adv k product = Inr cs" by auto
    with m show "\<exists>product cs. map_of products k = Some product
        \<and> candidates meta d adv k product = Inr cs" by blast
  qed
  from upgrade_loop_ok[OF d0 this] obtain pks1 sub1 where
    "upgrade_loop budget products meta d adv pks0 sub0 = Some (Inr (pks1, sub1))" by blast
  with b show ?thesis
    by (simp add: greedy_fill_to_cap_def)
qed

lemma greedy_terminates: "\<exists>r. greedy_fill_to_cap budget products meta d adv = Some r"
proof (cases "baseline meta d adv products [] 0")
  case (Inl e)
  then show ?thesis by (simp add: greedy_fill_to_cap_def)
next
  case (Inr r)
  obtain pks0 sub0 where r: "r = (pks0, sub0)" by (cases r) auto
  from baseline_distinct[OF Inr[unfolded r]] have "distinct (map fst pks0)" by simp
  from upgrade_loop_terminates[OF this] obtain r' where
    l: "upgrade_loop budget products meta d adv pks0 sub0 = Some r'" by blast
  show ?thesis
  proof (cases r')
    case (Inl e)
    with Inr r l show ?thesis by (simp add: greedy_fill_to_cap_def)
  next
    case (Inr q)
    obtain pks1 sub1 where "q = (pks1, sub1)" by (cases q) auto
    with Inr \<open>baseline meta d adv products [] 0 = Inr r\<close> r l show ?thesis
      by (simp add: greedy_fill_to_cap_def)
  qed
qed

lemma greedy_subtotal:
  assumes "greedy_fill_to_cap budget products meta d adv = Some (Inr sel)"
  shows "\<exists>pks0 sub0 sub1.
          baseline meta d adv products [] 0 = Inr (pks0, sub0)
        \<and> upgrade_loop budget products meta d adv pks0 sub0 = Some (Inr (picks sel, sub1))
        \<and> subtotal sel = round2 sub1
        \<and> sub0 \<le> sub1
        \<and> (sub0 \<le> budget \<longrightarrow>
             sub1 \<le> budget \<and> (\<forall>n::int. budget * 100 = of_int n \<longrightarrow> subtotal sel \<le> budget))"
proof -
  from assms obtain pks0 sub0 sub1 where
    g: "baseline meta d adv products [] 0 = Inr (pks0, sub0)"
       "upgrade_loop budget products meta d adv pks0 sub0 = Some (Inr (picks sel, sub1))"
       "subtotal sel = round2 sub1"
    by (rule greedy_Inr)
  from upgrade_loop_subtotal[OF g(2)] have s: "sub0 \<le> sub1" "sub0 \<le> budget \<longrightarrow> sub1 \<le> budget"
    by auto
  have "subtotal sel \<le> budget" if "sub0 \<le> budget" "budget * 100 = of_int n" for n :: int
    using round2_le_cents[of sub1 budget n] s that g(3) by simp
  with g s show ?thesis by blast
qed

lemma run_fill_to_cap_iff:
  "run_fill_to_cap tb tp ip t_set i_set meta d adv = Some (Inr (t_sel, i_sel, grand_total))
     \<longleftrightarrow> greedy_fill_to_cap (tb * (tp / 100)) t_set meta d adv = Some (Inr t_sel)
       \<and> greedy_fill_to_cap (tb * (ip / 100)) i_set meta d adv = Some (Inr i_sel)
       \<and> grand_total = round2 (subtotal t_sel + subtotal i_sel)"
proof (cases "greedy_fill_to_cap (tb * (tp / 100)) t_set meta d adv")
  case None
  then show ?thesis by (simp add: run_fill_to_cap_def)
next
  case (Some a)
  note A = Some
  show ?thesis
  proof (cases a)
    case (Inl e)
    with A show ?thesis by (simp add: run_fill_to_cap_def)
  next
    case (Inr ts)
    note B = Inr
    show ?thesis
    proof (cases "greedy_fill_to_cap (tb * (ip / 100)) i_set meta d adv")
      case None
      with A B show ?thesis by (simp add: run_fill_to_cap_def)
    next
      case (Some b)
      with A B show ?thesis by (cases b) (auto simp: run_fill_to_cap_def)
    qed
  qed
qed


section \<open>The example catalogue, evaluated\<close>

lemma catalog_baseline_eval:
  "baseline [] None False catalog [] 0 = Inr (catalog_baseline, 1750)"
  by code_simp

lemma catalog_pass_eval:
  "upgrade_pass 5000 catalog [] None False catalog_baseline catalog_baseline 1750 False
     = Inr (catalog_upgraded, 3950, True)"
  by code_simp

lemma catalog_pass2_eval:
  "upgrade_pass 5000 catalog [] None False catalog_upgraded catalog_upgraded 3950 False
     = Inr (catalog_upgraded, 3950, False)"
  by code_simp

lemma catalog_loop_eval:
  "upgrade_loop 5000 catalog [] None False catalog_baseline 1750
     = Some (Inr (catalog_upgraded, 3950))"
  by code_simp

lemma catalog_greedy_eval:
  "greedy_fill_to_cap 5000 catalog [] None False
     = Some (Inr \<lparr>picks = catalog_upgraded, subtotal = 3950\<rparr>)"
  by code_simp

lemma catalog_distinct: "distinct (map fst catalog)"
  by (simp add: catalog_def)

lemma catalog_unskipped:
  "map fst (filter (\<lambda>(pname, product).
       unskipped_points pname False (price_options product) \<noteq> []) catalog)
     = [''Email Blast'', ''Magazine Ad'']"
  by code_simp

lemma newsletter_unskipped: "unskipped_points ''Newsletter'' False (price_options newsletter) = []"
  by code_simp

lemma catalog_candidates_ok:
  "\<forall>(pname, product) \<in> set catalog. \<exists>cs. candidates [] None False pname product = Inr cs"
proof -
  have "\<forall>(pname, product) \<in> set catalog.
          (case candidates [] None False pname product of Inl e \<Rightarrow> False | Inr cs \<Rightarrow> True)"
    by code_simp
  then have h: "case candidates [] None False pname product of Inl e \<Rightarrow> False | Inr cs \<Rightarrow> True"
    if "(pname, product) \<in> set catalog" for pname product
    using that by auto
  show ?thesis
  proof (intro ballI, clarify)
    fix pname product assume "(pname, product) \<in> set catalog"
    from h[OF this] show "\<exists>cs. candidates [] None False pname product = Inr cs"
      by (cases "candidates [] None False pname product") auto
  qed
qed

lemma catalog_run_eval:
  "greedy_fill_to_cap 27000 catalog [] None False
     = Some (Inr \<lparr>picks = catalog_upgraded, subtotal = 3950\<rparr>)
   \<and> greedy_fill_to_cap 18000 [(''Newsletter'', newsletter)] [] None False
     = Some (Inr \<lparr>picks = [], subtotal = 0\<rparr>)
   \<and> round2 (3950 + 0) = 3950"
  by code_simp

section \<open>Budget respect\<close>

text \<open>
  Claim C1.  Across any part of an upgrade pass the running subtotal does not decrease, and
  it stays within the budget if it was within it before.  So when Phase A returns a baseline
  subtotal and Phase B returns, the subtotal after the loop is at least the baseline subtotal,
  and within the sub-budget whenever the baseline subtotal was.  For the selection that
  \<^const>\<open>greedy_fill_to_cap\<close> returns this holds of the subtotal before the final rounding;
  the rounded subtotal it stores is within the budget too when the budget is a whole number
  of cents.
\<close>

theorem upgrade_respects_budget:
  "(upgrade_pass budget products meta d adv items pks sub imp = Inr (pks', sub', imp') \<longrightarrow>
      sub \<le> sub' \<and> (sub \<le> budget \<longrightarrow> sub' \<le> budget))
   \<and> (baseline meta d adv products [] 0 = Inr (pks0, sub0)
        \<and> upgrade_loop budget products meta d adv pks0 sub0 = Some (Inr (pks1, sub1)) \<longrightarrow>
      sub0 \<le> sub1 \<and> (sub0 \<le> budget \<longrightarrow> sub1 \<le> budget))
   \<and> (greedy_fill_to_cap budget products meta d adv = Some (Inr sel) \<longrightarrow>
      (\<exists>pks0 sub0 sub1.
          baseline meta d adv products [] 0 = Inr (pks0, sub0)
        \<and> upgrade_loop budget products meta d adv pks0 sub0 = Some (Inr (picks sel, sub1))
        \<and> subtotal sel = round2 sub1
        \<and> sub0 \<le> sub1
        \<and> (sub0 \<le> budget \<longrightarrow>
             sub1 \<le> budget \<and> (\<forall>n::int. budget * 100 = of_int n \<longrightarrow> subtotal sel \<le> budget))))"
proof -
  have a: "sub \<le> sub' \<and> (sub \<le> budget \<longrightarrow> sub' \<le> budget)"
    if "upgrade_pass budget products meta d adv items pks sub imp = Inr (pks', sub', imp')"
    using upgrade_pass_subtotal[OF that] by simp
  have b: "sub0 \<le> sub1 \<and> (sub0 \<le> budget \<longrightarrow> sub1 \<le> budget)"
    if "upgrade_loop budget products meta d adv pks0 sub0 = Some (Inr (pks1, sub1))"
    using that by (rule upgrade_loop_subtotal)
  from a b greedy_subtotal[of budget products meta d adv sel] show ?thesis by blast
qed

theorem upgrade_respects_budget_witness:
  "baseline [] None False catalog [] 0 = Inr (catalog_baseline, 1750)
   \<and> upgrade_loop 5000 catalog [] None False catalog_baseline 1750
        = Some (Inr (catalog_upgraded, 3950))
   \<and> greedy_fill_to_cap 5000 catalog [] None False
        = Some (Inr \<lparr>picks = catalog_upgraded, subtotal = 3950\<rparr>)
   \<and> (1750::real) \<le> 5000 \<and> (1750::real) \<le> 3950 \<and> (3950::real) \<le> 5000"
  using upgrade_respects_budget[where budget = 5000 and products = catalog and meta = "[]"
          and d = None and adv = False and ?pks0.0 = catalog_baseline and ?sub0.0 = 1750
          and ?pks1.0 = catalog_upgraded and ?sub1.0 = 3950]
        catalog_baseline_eval catalog_loop_eval catalog_greedy_eval
  by simp

section \<open>One pick per product\<close>

text \<open>For a product that is not the Summit Booth the allocator skips no option: the price
  points it enumerates are those the product was given with.\<close>

lemma option_skipped_other:
  "\<not> (sublist ''summit'' (lower pname) \<and> sublist ''booth'' (lower pname)) \<Longrightarrow>
   option_skipped pname opt_name adv = False"
  unfolding option_skipped_def by (simp only: if_False)

lemma unskipped_points_other:
  assumes "\<not> (sublist ''summit'' (lower pname) \<and> sublist ''booth'' (lower pname))"
  shows "unskipped_points pname adv opts = surviving_points pname opts"
proof (induction opts)
  case Nil
  show ?case by simp
next
  case (Cons opt opts)
  then show ?case
    by (simp add: option_skipped_other[OF assms] Let_def)
qed

lemma booth_filter_eval:
  "apply_summit_rules [(''Summit Booth'', summit_booth)] None (Some False)
     = [(''Summit Booth'', summit_booth_filtered)]"
  by code_simp

lemma advertiser_rate_points: "price_points advertiser_rate = Inr [(''base'', 400)]"
  by code_simp

lemma booth_greedy_eval:
  "greedy_fill_to_cap 1000 [(''Summit Booth'', summit_booth_filtered)] [] None False
     = Some (Inr \<lparr>picks = [], subtotal = 0\<rparr>)"
  by code_simp

text \<open>A price point that survives the eligibility filter does not always give a pick.  For a
  client who is not an advertiser, the filter's fall-back keeps the advertiser rate of the
  Summit Booth, an option with one price point; the allocator, called with the same flag,
  skips that option and returns an empty picks dict.\<close>

theorem summit_booth_survivor_unpicked:
  "apply_summit_rules [(''Summit Booth'', summit_booth)] None (Some False)
     = [(''Summit Booth'', summit_booth_filtered)]
   \<and> price_options summit_booth_filtered = [advertiser_rate]
   \<and> price_points advertiser_rate = Inr [(''base'', 400)]
   \<and> greedy_fill_to_cap 1000 [(''Summit Booth'', summit_booth_filtered)] [] None False
        = Some (Inr \<lparr>picks = [], subtotal = 0\<rparr>)"
  using booth_filter_eval advertiser_rate_points booth_greedy_eval
  by (simp add: summit_booth_filtered_def)

text \<open>
  Claim C3, as the code has it.  For a products dict (distinct keys): in the selection that
  \<^const>\<open>greedy_fill_to_cap\<close> returns, the picks dict has exactly the products with at least
  one price point among the options that the allocator's own Summit Booth rule does not
  skip, each once and in the order of the products; a product without such a price point is
  left out.  Such a product raises nothing: whenever the candidates of every product can be
  computed, an empty list included, a selection is returned.  For a product whose name does
  not contain both "summit" and "booth" the rule skips nothing, and the price points counted
  are all those the product was given with.
\<close>

theorem greedy_one_pick_per_product:
  assumes "distinct (map fst products)"
  shows "(greedy_fill_to_cap budget products meta d adv = Some (Inr sel) \<longrightarrow>
            map fst (picks sel)
              = map fst (filter (\<lambda>(pname, product).
                           unskipped_points pname adv (price_options product) \<noteq> []) products)
            \<and> distinct (map fst (picks sel)))
       \<and> ((\<forall>(pname, product) \<in> set products.
              \<exists>cs. candidates meta d adv pname product = Inr cs) \<longrightarrow>
            (\<exists>sel. greedy_fill_to_cap budget products meta d adv = Some (Inr sel)))
       \<and> (\<not> (sublist ''summit'' (lower pname) \<and> sublist ''booth'' (lower pname)) \<longrightarrow>
            unskipped_points pname adv opts = surviving_points pname opts)"
  using greedy_keys[OF assms, of budget meta d adv sel] greedy_ok[of products meta d adv budget]
        unskipped_points_other[of pname adv opts]
  by blast

theorem greedy_one_pick_per_product_witness:
  "distinct (map fst catalog)
   \<and> greedy_fill_to_cap 5000 catalog [] None False
        = Some (Inr \<lparr>picks = catalog_upgraded, subtotal = 3950\<rparr>)
   \<and> map fst catalog_upgraded = [''Email Blast'', ''Magazine Ad'']
   \<and> unskipped_points ''Newsletter'' False (price_options newsletter) = []
   \<and> candidates [] None False ''Newsletter'' newsletter = Inr []
   \<and> (\<exists>sel. greedy_fill_to_cap 5000 catalog [] None False = Some (Inr sel))
   \<and> unskipped_points ''Magazine Ad'' False (price_options magazine)
        = [(''Full Page'', ''1X'', 1000), (''Full Page'', ''4X'', 800)]
   \<and> surviving_points ''Magazine Ad'' (price_options magazine)
        = [(''Full Page'', ''1X'', 1000), (''Full Page'', ''4X'', 800)]"
proof -
  have n: "candidates [] None False ''Newsletter'' newsletter = Inr []"
    by code_simp
  have m: "surviving_points ''Magazine Ad'' (price_options magazine)
             = [(''Full Page'', ''1X'', 1000), (''Full Page'', ''4X'', 800)]"
    by code_simp
  have nb: "\<not> (sublist ''summit'' (lower ''Magazine Ad'') \<and> sublist ''booth'' (lower ''Magazine Ad''))"
    by code_simp
  note t = greedy_one_pick_per_product[OF catalog_distinct, of 5000 "[]" None False
          "\<lparr>picks = catalog_upgraded, subtotal = 3950\<rparr>" "''Magazine Ad''"
          "price_options magazine"]
  from t catalog_candidates_ok
  have e: "\<exists>sel. greedy_fill_to_cap 5000 catalog [] None False = Some (Inr sel)"
    by blast
  from t nb have
    u: "unskipped_points ''Magazine Ad'' False (price_options magazine)
          = surviving_points ''Magazine Ad'' (price_options magazine)"
    by blast
  from n e u m catalog_greedy_eval catalog_distinct catalog_unskipped newsletter_unskipped
  show ?thesis by (simp add: catalog_upgraded_def)
qed

section \<open>Termination of the upgrade loop\<close>

text \<open>
  Claim C4.  \<^const>\<open>greedy_fill_to_cap\<close> returns (a selection or an error) on every
  input, and \<^const>\<open>upgrade_loop\<close> returns from every picks dict.  A pass that adopts an
  upgrade strictly increases the subtotal and strictly lowers \<^const>\<open>total_room\<close>, the number
  of more expensive candidates left, summed over the picks; a pass that adopts none ends the
  loop with the picks and the subtotal unchanged.
\<close>

theorem upgrade_loop_terminates_all:
  "(\<exists>r. greedy_fill_to_cap budget products meta d adv = Some r)
   \<and> (distinct (map fst pks) \<longrightarrow>
        (\<exists>r. upgrade_loop budget products meta d adv pks sub = Some r))
   \<and> (distinct (map fst pks)
        \<and> upgrade_pass budget products meta d adv pks pks sub False = Inr (pks', sub', True) \<longrightarrow>
        sub < sub'
        \<and> total_room products meta d adv pks' < total_room products meta d adv pks)
   \<and> (upgrade_pass budget products meta d adv pks pks sub False = Inr (pks', sub', False) \<longrightarrow>
        upgrade_loop budget products meta d adv pks sub = Some (Inr (pks, sub)))"
proof -
  have c: "sub < sub'
        \<and> total_room products meta d adv pks' < total_room products meta d adv pks"
    if "distinct (map fst pks)"
      "upgrade_pass budget products meta d adv pks pks sub False = Inr (pks', sub', True)"
    using upgrade_pass_subtotal[OF that(2)] upgrade_pass_room_start[OF that(2,1)] by simp
  have e: "upgrade_loop budget products meta d adv pks sub = Some (Inr (pks, sub))"
    if a: "upgrade_pass budget products meta d adv pks pks sub False = Inr (pks', sub', False)"
  proof -
    from upgrade_pass_subtotal[OF a] have "pks' = pks" "sub' = sub" by auto
    with a show ?thesis by (subst upgrade_loop.simps) simp
  qed
  from c e greedy_terminates[of budget products meta d adv]
       upgrade_loop_terminates[of pks budget products meta d adv sub]
  show ?thesis by blast
qed

theorem upgrade_loop_terminates_all_witness:
  "distinct (map fst catalog_baseline)
   \<and> upgrade_pass 5000 catalog [] None False catalog_baseline catalog_baseline 1750 False
        = Inr (catalog_upgraded, 3950, True)
   \<and> (1750::real) < 3950
   \<and> total_room catalog [] None False catalog_upgraded
        < total_room catalog [] None False catalog_baseline
   \<and> upgrade_pass 5000 catalog [] None False catalog_upgraded catalog_upgraded 3950 False
        = Inr (catalog_upgraded, 3950, False)
   \<and> upgrade_loop 5000 catalog [] None False catalog_upgraded 3950
        = Some (Inr (catalog_upgraded, 3950))
   \<and> (\<exists>r. upgrade_loop 5000 catalog [] None False catalog_baseline 1750 = Some r)"
proof -
  have d: "distinct (map fst catalog_baseline)" by (simp add: catalog_baseline_def)
  from upgrade_loop_terminates_all[where budget = 5000 and products = catalog and meta = "[]"
          and d = None and adv = False and pks = catalog_baseline and sub = 1750
          and pks' = catalog_upgraded and sub' = 3950] d catalog_pass_eval
  have 1: "(1750::real) < 3950
   \<and> total_room catalog [] None False catalog_upgraded
        < total_room catalog [] None False catalog_baseline
   \<and> (\<exists>r. upgrade_loop 5000 catalog [] None False catalog_baseline 1750 = Some r)"
    by blast
  from upgrade_loop_terminates_all[where budget = 5000 and products = catalog and meta = "[]"
          and d = None and adv = False and pks = catalog_upgraded and sub = 3950
          and pks' = catalog_upgraded and sub' = 3950] catalog_pass2_eval
  have 2: "upgrade_loop 5000 catalog [] None False catalog_upgraded 3950
        = Some (Inr (catalog_upgraded, 3950))" by blast
  from 1 2 d catalog_pass_eval catalog_pass2_eval show ?thesis by blast
qed

section \<open>The pool orchestrator\<close>

text \<open>
  Claim C9.  \<^const>\<open>run_fill_to_cap\<close> returns two selections and a grand total exactly when
  the allocator, run on the tourist set with the budget \<open>total_budget * (tourist_pct / 100)\<close>
  and on the industry set with \<open>total_budget * (industry_pct / 100)\<close>, neither one rounded,
  returns these selections, and the grand total is the sum of their subtotals rounded to
  cents.  For a total of 45000 split 60 to 40 the two budgets are 27000 and 18000, which are
  also the budgets \<^const>\<open>compute_pools\<close> gives.
\<close>

theorem run_fill_to_cap_pools:
  "(run_fill_to_cap total_budget tourist_pct industry_pct t_set i_set meta d adv
       = Some (Inr (t_sel, i_sel, grand_total))
     \<longleftrightarrow> greedy_fill_to_cap (total_budget * (tourist_pct / 100)) t_set meta d adv = Some (Inr t_sel)
       \<and> greedy_fill_to_cap (total_budget * (industry_pct / 100)) i_set meta d adv = Some (Inr i_sel)
       \<and> grand_total = round2 (subtotal t_sel + subtotal i_sel))
   \<and> (run_fill_to_cap 45000 60 40 t_set i_set meta d adv = Some (Inr (t_sel, i_sel, grand_total))
     \<longleftrightarrow> greedy_fill_to_cap 27000 t_set meta d adv = Some (Inr t_sel)
       \<and> greedy_fill_to_cap 18000 i_set meta d adv = Some (Inr i_sel)
       \<and> grand_total = round2 (subtotal t_sel + subtotal i_sel))
   \<and> compute_pools 45000 60 40 = ((''tourist'', 27000), (''industry'', 18000))"
proof -
  have pools: "compute_pools 45000 60 40 = ((''tourist'', 27000), (''industry'', 18000))"
    by (simp add: compute_pools_def round2_def)
  from run_fill_to_cap_iff[of total_budget tourist_pct industry_pct t_set i_set meta d adv
         t_sel i_sel grand_total]
       run_fill_to_cap_iff[of 45000 60 40 t_set i_set meta d adv t_sel i_sel grand_total] pools
  show ?thesis by simp
qed

theorem run_fill_to_cap_pools_witness:
  "run_fill_to_cap 45000 60 40 catalog [(''Newsletter'', newsletter)] [] None False
     = Some (Inr (\<lparr>picks = catalog_upgraded, subtotal = 3950\<rparr>,
                  \<lparr>picks = [], subtotal = 0\<rparr>, 3950))"
  using run_fill_to_cap_pools[where t_set = catalog and i_set = "[(''Newsletter'', newsletter)]"
          and meta = "[]" and d = None and adv = False
          and t_sel = "\<lparr>picks = catalog_upgraded, subtotal = 3950\<rparr>"
          and i_sel = "\<lparr>picks = [], subtotal = 0\<rparr>" and grand_total = 3950]
        catalog_run_eval
  by simp

end
